theory Spec2Isabelle
  imports Main "HOL-Library.Word"
begin

unbundle bit_operations_syntax

section \<open>Machine types and exceptions\<close>

text \<open>
  The loader works on \<open>uint8_t\<close> and \<open>uint32_t\<close> values; both are words, so that
  the index arithmetic of the dense grid and the chunk positions wrap around as they
  do in the C++ source. The exceptions the source can raise are \<open>VoxException\<close>
  (thrown by \<open>ReadId\<close>), \<open>std::logic_error\<close> (thrown by \<open>ReadId\<close> on an
  identifier that is not four characters long) and \<open>std::out_of_range\<close> (thrown by
  \<open>std::vector::at\<close> inside \<open>VoxDenseModel::voxel\<close>). Memory is taken to be
  unbounded: \<open>resize\<close> and \<open>push_back\<close> never fail.
\<close>

type_synonym u8 = "8 word"
type_synonym u32 = "32 word"

datatype exn = VoxException | logic_error | out_of_range

definition bytes_of :: "string \<Rightarrow> u8 list" where
  "bytes_of s = map (\<lambda>c. word_of_nat (of_char c)) s"

section \<open>The input stream\<close>

text \<open>
  \<open>std::ifstream\<close> as the source uses it: binary mode, no exception mask. The state
  is the file's bytes, the get position and the fail state (\<open>read\<close> past the end sets
  \<open>eofbit\<close> and \<open>failbit\<close> together, and nothing else sets either, so one flag is
  enough). Once the stream has failed, \<open>read\<close> stores nothing, \<open>seekg\<close> does
  nothing and \<open>tellg\<close> returns \<open>-1\<close>. A seek beyond the end of the file succeeds
  (as \<open>lseek\<close> does); the next read there fails.

  A failed or short \<open>read\<close> leaves the rest of the caller's buffer as it was, and every
  buffer of the source is an uninitialised local. Those bytes are indeterminate in C++;
  the model draws them from an arbitrary supply \<open>indet\<close>, one fresh index per byte
  (\<open>drawn\<close> counts them), so that a theorem about every stream holds whatever
  the uninitialised bytes are.
\<close>

record ifstream =
  content :: "u8 list"
  gpos :: nat
  failbit :: bool
  indet :: "nat \<Rightarrow> u8"
  drawn :: nat

definition garbage :: "ifstream \<Rightarrow> nat \<Rightarrow> u8 list" where
  "garbage file n = map (indet file) [drawn file ..< drawn file + n]"

definition ifstream_read :: "ifstream \<Rightarrow> nat \<Rightarrow> u8 list \<times> ifstream" where
  "ifstream_read file n =
     (if failbit file then (garbage file n, file\<lparr>drawn := drawn file + n\<rparr>)
      else
        let avail = drop (gpos file) (content file) in
        if n \<le> length avail then (take n avail, file\<lparr>gpos := gpos file + n\<rparr>)
        else (avail @ garbage file (n - length avail),
              file\<lparr>gpos := gpos file + length avail, failbit := True,
                   drawn := drawn file + (n - length avail)\<rparr>))"

definition tellg :: "ifstream \<Rightarrow> int" where
  "tellg file = (if failbit file then - 1 else int (gpos file))"

definition seekg :: "ifstream \<Rightarrow> u32 \<Rightarrow> ifstream" where
  "seekg file pos = (if failbit file then file else file\<lparr>gpos := unat pos\<rparr>)"

definition seekg_cur :: "ifstream \<Rightarrow> u32 \<Rightarrow> ifstream" where
  "seekg_cur file off = (if failbit file then file else file\<lparr>gpos := gpos file + unat off\<rparr>)"

text \<open>
  The file system and the uninitialised memory are the loader's environment. Opening a
  path that names no file leaves the stream in the fail state, without an exception.
\<close>

record env =
  files :: "string \<Rightarrow> u8 list option"
  uninit :: "nat \<Rightarrow> u8"

definition ifstream_open :: "env \<Rightarrow> string \<Rightarrow> ifstream" where
  "ifstream_open e path =
     (case files e path of
        None \<Rightarrow> \<lparr>content = [], gpos = 0, failbit = True, indet = uninit e, drawn = 0\<rparr>
      | Some bs \<Rightarrow> \<lparr>content = bs, gpos = 0, failbit = False, indet = uninit e, drawn = 0\<rparr>)"

subsection \<open>Primitive readers\<close>

definition le_u32read :: "ifstream \<Rightarrow> u32 \<times> ifstream" where
  "le_u32read file =
     (let (data, file') = ifstream_read file 4 in
      (ucast (data ! 0) OR push_bit 8 (ucast (data ! 1)) OR
         push_bit 16 (ucast (data ! 2)) OR push_bit 24 (ucast (data ! 3)), file'))"

definition le_i32read :: "ifstream \<Rightarrow> int \<times> ifstream" where
  "le_i32read file = (let (v, file') = le_u32read file in (sint v, file'))"

text \<open>\<open>read_byte\<close> returns the \<open>char\<close> as an \<open>int\<close> (a signed \<open>char\<close>);
  \<open>read_uint8\<close> casts it back to \<open>uint8_t\<close>.\<close>

definition read_byte :: "ifstream \<Rightarrow> int \<times> ifstream" where
  "read_byte file = (let (data, file') = ifstream_read file 1 in (sint (data ! 0), file'))"

definition read_uint8 :: "ifstream \<Rightarrow> u8 \<times> ifstream" where
  "read_uint8 file = (let (v, file') = read_byte file in (word_of_int v, file'))"

section \<open>The data model\<close>

record Vec3i =
  vec_x :: u32
  vec_y :: u32
  vec_z :: u32

record Color =
  col_r :: u8
  col_g :: u8
  col_b :: u8
  col_a :: u8

definition Color_of_u32 :: "u32 \<Rightarrow> Color" where
  "Color_of_u32 val =
     \<lparr>col_r = ucast (val AND 0xff), col_g = ucast (drop_bit 8 val AND 0xff),
      col_b = ucast (drop_bit 16 val AND 0xff), col_a = ucast (drop_bit 24 val AND 0xff)\<rparr>"

type_synonym Palette = "Color list"

definition kDefaultPalette :: Palette where
  "kDefaultPalette = map Color_of_u32
    [
     0xffffffff, 0xffffffcc, 0xffffff99, 0xffffff66, 0xffffff33, 0xffffff00,
     0xffffccff, 0xffffcccc, 0xffffcc99, 0xffffcc66, 0xffffcc33, 0xffffcc00,
     0xffff99ff, 0xffff99cc, 0xffff9999, 0xffff9966, 0xffff9933, 0xffff9900,
     0xffff66ff, 0xffff66cc, 0xffff6699, 0xffff6666, 0xffff6633, 0xffff6600,
     0xffff33ff, 0xffff33cc, 0xffff3399, 0xffff3366, 0xffff3333, 0xffff3300,
     0xffff00ff, 0xffff00cc, 0xffff0099, 0xffff0066, 0xffff0033, 0xffff0000,
     0xffccffff, 0xffccffcc, 0xffccff99, 0xffccff66, 0xffccff33, 0xffccff00,
     0xffccccff, 0xffcccccc, 0xffcccc99, 0xffcccc66, 0xffcccc33, 0xffcccc00,
     0xffcc99ff, 0xffcc99cc, 0xffcc9999, 0xffcc9966, 0xffcc9933, 0xffcc9900,
     0xffcc66ff, 0xffcc66cc, 0xffcc6699, 0xffcc6666, 0xffcc6633, 0xffcc6600,
     0xffcc33ff, 0xffcc33cc, 0xffcc3399, 0xffcc3366, 0xffcc3333, 0xffcc3300,
     0xffcc00ff, 0xffcc00cc, 0xffcc0099, 0xffcc0066, 0xffcc0033, 0xffcc0000,
     0xff99ffff, 0xff99ffcc, 0xff99ff99, 0xff99ff66, 0xff99ff33, 0xff99ff00,
     0xff99ccff, 0xff99cccc, 0xff99cc99, 0xff99cc66, 0xff99cc33, 0xff99cc00,
     0xff9999ff, 0xff9999cc, 0xff999999, 0xff999966, 0xff999933, 0xff999900,
     0xff9966ff, 0xff9966cc, 0xff996699, 0xff996666, 0xff996633, 0xff996600,
     0xff9933ff, 0xff9933cc, 0xff993399, 0xff993366, 0xff993333, 0xff993300,
     0xff9900ff, 0xff9900cc, 0xff990099, 0xff990066, 0xff990033, 0xff990000,
     0xff66ffff, 0xff66ffcc, 0xff66ff99, 0xff66ff66, 0xff66ff33, 0xff66ff00,
     0xff66ccff, 0xff66cccc, 0xff66cc99, 0xff66cc66, 0xff66cc33, 0xff66cc00,
     0xff6699ff, 0xff6699cc, 0xff669999, 0xff669966, 0xff669933, 0xff669900,
     0xff6666ff, 0xff6666cc, 0xff666699, 0xff666666, 0xff666633, 0xff666600,
     0xff6633ff, 0xff6633cc, 0xff663399, 0xff663366, 0xff663333, 0xff663300,
     0xff6600ff, 0xff6600cc, 0xff660099, 0xff660066, 0xff660033, 0xff660000,
     0xff33ffff, 0xff33ffcc, 0xff33ff99, 0xff33ff66, 0xff33ff33, 0xff33ff00,
     0xff33ccff, 0xff33cccc, 0xff33cc99, 0xff33cc66, 0xff33cc33, 0xff33cc00,
     0xff3399ff, 0xff3399cc, 0xff339999, 0xff339966, 0xff339933, 0xff339900,
     0xff3366ff, 0xff3366cc, 0xff336699, 0xff336666, 0xff336633, 0xff336600,
     0xff3333ff, 0xff3333cc, 0xff333399, 0xff333366, 0xff333333, 0xff333300,
     0xff3300ff, 0xff3300cc, 0xff330099, 0xff330066, 0xff330033, 0xff330000,
     0xff00ffff, 0xff00ffcc, 0xff00ff99, 0xff00ff66, 0xff00ff33, 0xff00ff00,
     0xff00ccff, 0xff00cccc, 0xff00cc99, 0xff00cc66, 0xff00cc33, 0xff00cc00,
     0xff0099ff, 0xff0099cc, 0xff009999, 0xff009966, 0xff009933, 0xff009900,
     0xff0066ff, 0xff0066cc, 0xff006699, 0xff006666, 0xff006633, 0xff006600,
     0xff0033ff, 0xff0033cc, 0xff003399, 0xff003366, 0xff003333, 0xff003300,
     0xff0000ff, 0xff0000cc, 0xff000099, 0xff000066, 0xff000033, 0xffee0000,
     0xffdd0000, 0xffbb0000, 0xffaa0000, 0xff880000, 0xff770000, 0xff550000,
     0xff440000, 0xff220000, 0xff110000, 0xff00ee00, 0xff00dd00, 0xff00bb00,
     0xff00aa00, 0xff008800, 0xff007700, 0xff005500, 0xff004400, 0xff002200,
     0xff001100, 0xff0000ee, 0xff0000dd, 0xff0000bb, 0xff0000aa, 0xff000088,
     0xff000077, 0xff000055, 0xff000044, 0xff000022, 0xff000011, 0xffeeeeee,
     0xffdddddd, 0xffbbbbbb, 0xffaaaaaa, 0xff888888, 0xff777777, 0xff555555,
     0xff444444, 0xff222222, 0xff111111, 0xff000000]"

text \<open>
  \<open>VoxDenseModel\<close>: the constructor the loader uses takes a palette argument but
  never copies it into \<open>palette_\<close>, so the member stays uninitialised (\<open>None\<close>)
  until \<open>Load\<close> assigns it. The grid has \<open>size.x * size.y * size.z\<close> cells, the
  product taken in \<open>uint32_t\<close>, all zero.
\<close>

record VoxDenseModel =
  dm_size :: Vec3i
  dm_voxels :: "u8 list"
  dm_palette :: "Palette option"

definition VoxDenseModel_new :: "Vec3i \<Rightarrow> VoxDenseModel" where
  "VoxDenseModel_new sz =
     \<lparr>dm_size = sz, dm_voxels = replicate (unat (vec_x sz * vec_y sz * vec_z sz)) 0,
      dm_palette = None\<rparr>"

text \<open>
  \<open>voxel(int x, int y, int z)\<close> addresses \<open>x + (y * size_.x) + (z * size_.x * size_.y)\<close>,
  computed in \<open>uint32_t\<close>, through the bounds-checked \<open>vector::at\<close>. \<open>voxel\<close> is
  the read through the accessor, \<open>voxel_assign\<close> the write through the reference it
  returns.
\<close>

definition voxel_index :: "Vec3i \<Rightarrow> int \<Rightarrow> int \<Rightarrow> int \<Rightarrow> nat" where
  "voxel_index sz x y z =
     unat (word_of_int x + (word_of_int y * vec_x sz) + (word_of_int z * vec_x sz * vec_y sz) :: u32)"

definition voxel :: "VoxDenseModel \<Rightarrow> int \<Rightarrow> int \<Rightarrow> int \<Rightarrow> exn + u8" where
  "voxel m x y z =
     (let i = voxel_index (dm_size m) x y z in
      if i < length (dm_voxels m) then Inr (dm_voxels m ! i) else Inl out_of_range)"

definition voxel_assign :: "VoxDenseModel \<Rightarrow> int \<Rightarrow> int \<Rightarrow> int \<Rightarrow> u8 \<Rightarrow> exn + VoxDenseModel" where
  "voxel_assign m x y z c =
     (let i = voxel_index (dm_size m) x y z in
      if i < length (dm_voxels m) then Inr (m\<lparr>dm_voxels := (dm_voxels m)[i := c]\<rparr>)
      else Inl out_of_range)"

record Voxel =
  vox_x :: u8
  vox_y :: u8
  vox_z :: u8
  vox_color :: u8

record VoxSparseModel =
  sm_size :: Vec3i
  sm_voxels :: "Voxel list"
  sm_palette :: Palette

definition VoxSparseModel_new :: "Vec3i \<Rightarrow> VoxSparseModel" where
  "VoxSparseModel_new sz = \<lparr>sm_size = sz, sm_voxels = [], sm_palette = kDefaultPalette\<rparr>"

record VoxFile =
  load_dense :: bool
  load_sparse :: bool
  remove_hidden_voxels :: bool
  cur_size :: Vec3i
  dense_models :: "VoxDenseModel list"
  sparse_models :: "VoxSparseModel list"
  palette :: Palette

definition VoxFile_new :: "bool \<Rightarrow> bool \<Rightarrow> bool \<Rightarrow> VoxFile" where
  "VoxFile_new ld ls rh =
     \<lparr>load_dense = ld, load_sparse = ls, remove_hidden_voxels = rh,
      cur_size = \<lparr>vec_x = 0, vec_y = 0, vec_z = 0\<rparr>,
      dense_models = [], sparse_models = [], palette = kDefaultPalette\<rparr>"

section \<open>The loader\<close>

subsection \<open>ReadId\<close>

definition ReadId :: "ifstream \<Rightarrow> string \<Rightarrow> exn + ifstream" where
  "ReadId file ident =
     (if length ident \<noteq> 4 then Inl logic_error
      else
        let (fid, file') = ifstream_read file 4; want = bytes_of ident in
        if fid ! 0 \<noteq> want ! 0 \<or> fid ! 1 \<noteq> want ! 1 \<or> fid ! 2 \<noteq> want ! 2 \<or>
           fid ! 3 \<noteq> want ! 3
        then Inl VoxException else Inr file')"

subsection \<open>SIZE and RGBA chunks\<close>

definition ReadSizeChunk :: "ifstream \<Rightarrow> VoxFile \<Rightarrow> u32 \<Rightarrow> u32 \<Rightarrow> ifstream \<times> VoxFile" where
  "ReadSizeChunk file vf contents_size children_size =
     (let (sx, f1) = le_u32read file; (sy, f2) = le_u32read f1; (sz, f3) = le_u32read f2 in
      (f3, vf\<lparr>cur_size := \<lparr>vec_x = sx, vec_y = sy, vec_z = sz\<rparr>\<rparr>))"

text \<open>One round of the loop of \<open>ReadRgbaChunk\<close>: four bytes into \<open>palette_[i]\<close>.\<close>

definition ReadRgbaChunk_step :: "nat \<Rightarrow> ifstream \<times> VoxFile \<Rightarrow> ifstream \<times> VoxFile" where
  "ReadRgbaChunk_step i s =
     (let (file, vf) = s;
          (r, f1) = read_byte file; (g, f2) = read_byte f1;
          (b, f3) = read_byte f2; (a, f4) = read_byte f3 in
      (f4, vf\<lparr>palette := (palette vf)
              [i := \<lparr>col_r = word_of_int r, col_g = word_of_int g,
                     col_b = word_of_int b, col_a = word_of_int a\<rparr>]\<rparr>))"

definition ReadRgbaChunk :: "ifstream \<Rightarrow> VoxFile \<Rightarrow> u32 \<Rightarrow> u32 \<Rightarrow> ifstream \<times> VoxFile" where
  "ReadRgbaChunk file vf contents_size children_size =
     fold ReadRgbaChunk_step [1..<256] (file, vf)"

subsection \<open>RemoveHiddenVoxels\<close>

text \<open>
  The condition of \<open>RemoveHiddenVoxels\<close> is a chain of \<open>&&\<close>: \<open>and_also\<close> evaluates
  its second operand only when the first is true, and an exception of an operand
  (\<open>vector::at\<close>) ends the chain. \<open>voxel.x\<close> is promoted to \<open>int\<close>; compared with
  \<open>dense.size().x - 1\<close> it is converted to \<open>uint32_t\<close>, and the subtraction wraps.
\<close>

definition and_also :: "exn + bool \<Rightarrow> exn + bool \<Rightarrow> exn + bool" where
  "and_also p q = (case p of Inl e \<Rightarrow> Inl e | Inr b \<Rightarrow> if b then q else Inr False)"

definition nonzero :: "exn + u8 \<Rightarrow> exn + bool" where
  "nonzero r = (case r of Inl e \<Rightarrow> Inl e | Inr c \<Rightarrow> Inr (c \<noteq> 0))"

definition is_hidden :: "VoxDenseModel \<Rightarrow> Voxel \<Rightarrow> exn + bool" where
  "is_hidden dense v =
     (let x = uint (vox_x v); y = uint (vox_y v); z = uint (vox_z v); sz = dm_size dense in
      and_also (Inr (x > 0))
     (and_also (nonzero (voxel dense (x - 1) y z))
     (and_also (Inr ((word_of_int x :: u32) < vec_x sz - 1))
     (and_also (nonzero (voxel dense (x + 1) y z))
     (and_also (Inr (y > 0))
     (and_also (nonzero (voxel dense x (y - 1) z))
     (and_also (Inr ((word_of_int y :: u32) < vec_y sz - 1))
     (and_also (nonzero (voxel dense x (y + 1) z))
     (and_also (Inr (z > 0))
     (and_also (nonzero (voxel dense x y (z - 1)))
     (and_also (Inr ((word_of_int z :: u32) < vec_z sz - 1))
               (nonzero (voxel dense x y (z + 1))))))))))))))"

fun RemoveHiddenVoxels ::
  "VoxDenseModel \<Rightarrow> VoxSparseModel \<Rightarrow> Voxel list \<Rightarrow> exn + (VoxDenseModel \<times> VoxSparseModel)" where
  "RemoveHiddenVoxels dense sparse [] = Inr (dense, sparse)"
| "RemoveHiddenVoxels dense sparse (v # voxels) =
     (case is_hidden dense v of
        Inl e \<Rightarrow> Inl e
      | Inr True \<Rightarrow>
          (case voxel_assign dense (uint (vox_x v)) (uint (vox_y v)) (uint (vox_z v)) 0 of
             Inl e \<Rightarrow> Inl e
           | Inr dense' \<Rightarrow> RemoveHiddenVoxels dense' sparse voxels)
      | Inr False \<Rightarrow>
          RemoveHiddenVoxels dense (sparse\<lparr>sm_voxels := sm_voxels sparse @ [v]\<rparr>) voxels)"

subsection \<open>XYZI chunks\<close>

text \<open>The \<open>for\<close> loop of \<open>ReadXyziChunk\<close>, counting the records still to read.\<close>

fun ReadXyziChunk_loop ::
  "nat \<Rightarrow> ifstream \<Rightarrow> VoxDenseModel \<Rightarrow> Voxel list \<Rightarrow>
     exn + (ifstream \<times> VoxDenseModel \<times> Voxel list)" where
  "ReadXyziChunk_loop 0 file dense voxels = Inr (file, dense, voxels)"
| "ReadXyziChunk_loop (Suc n) file dense voxels =
     (let (x, f1) = read_uint8 file; (y, f2) = read_uint8 f1;
          (z, f3) = read_uint8 f2; (c, f4) = read_uint8 f3;
          v = \<lparr>vox_x = x, vox_y = y, vox_z = z, vox_color = c\<rparr> in
      case voxel_assign dense (uint x) (uint y) (uint z) c of
        Inl e \<Rightarrow> Inl e
      | Inr dense' \<Rightarrow> ReadXyziChunk_loop n f4 dense' (voxels @ [v]))"

definition ReadXyziChunk :: "ifstream \<Rightarrow> VoxFile \<Rightarrow> u32 \<Rightarrow> u32 \<Rightarrow> exn + (ifstream \<times> VoxFile)" where
  "ReadXyziChunk file vf contents_size children_size =
     (let dense = VoxDenseModel_new (cur_size vf);
          sparse = VoxSparseModel_new (cur_size vf);
          (n_voxels, f1) = le_u32read file in
      case ReadXyziChunk_loop (unat n_voxels) f1 dense [] of
        Inl e \<Rightarrow> Inl e
      | Inr (f2, dense1, voxels) \<Rightarrow>
          (case (if remove_hidden_voxels vf then RemoveHiddenVoxels dense1 sparse voxels
                 else Inr (dense1, sparse\<lparr>sm_voxels := voxels\<rparr>)) of
             Inl e \<Rightarrow> Inl e
           | Inr (dense2, sparse2) \<Rightarrow>
               Inr (f2, vf\<lparr>dense_models :=
                            (if load_dense vf then dense_models vf @ [dense2] else dense_models vf),
                          sparse_models :=
                            (if load_sparse vf then sparse_models vf @ [sparse2]
                             else sparse_models vf)\<rparr>)))"

subsection \<open>The chunk tree\<close>

text \<open>
  \<open>ReadChunk\<close> and the \<open>while\<close> loop of \<open>ReadMainChunk\<close> call each other, and
  neither need return: a child chunk whose sizes wrap the 32-bit position back, or a
  stream that has failed (\<open>tellg\<close> is \<open>-1\<close>, below every \<open>end_pos\<close>), keeps the
  loop running. The functions take fuel, one unit per call; \<open>None\<close> is the run that
  has not returned within the fuel. An exception carries the \<open>VoxFile\<close> as it is when
  the exception leaves \<open>Load\<close>.
\<close>

type_synonym outcome = "((exn \<times> VoxFile) + (ifstream \<times> VoxFile)) option"

definition read_chunk_header :: "ifstream \<Rightarrow> u8 list \<times> u32 \<times> u32 \<times> ifstream" where
  "read_chunk_header file =
     (let (chunk_id_chars, f1) = ifstream_read file 4;
          (contents_size, f2) = le_u32read f1;
          (children_size, f3) = le_u32read f2 in
      (takeWhile (\<lambda>b. b \<noteq> 0) chunk_id_chars, contents_size, children_size, f3))"

fun ReadChunk :: "nat \<Rightarrow> ifstream \<Rightarrow> VoxFile \<Rightarrow> outcome"
  and ReadMainChunk :: "nat \<Rightarrow> ifstream \<Rightarrow> VoxFile \<Rightarrow> u32 \<Rightarrow> u32 \<Rightarrow> outcome"
  and ReadMainChunk_loop :: "nat \<Rightarrow> u32 \<Rightarrow> ifstream \<Rightarrow> VoxFile \<Rightarrow> outcome" where
  "ReadChunk 0 file vf = None"
| "ReadChunk (Suc n) file vf =
     (let (chunk_id, contents_size, children_size, f3) = read_chunk_header file;
          contents_start = (word_of_int (tellg f3) :: u32);
          next_chunk_pos = contents_start + contents_size + children_size;
          r = (if chunk_id = bytes_of ''MAIN'' then ReadMainChunk n f3 vf contents_size children_size
               else if chunk_id = bytes_of ''SIZE''
                 then Some (Inr (ReadSizeChunk f3 vf contents_size children_size))
               else if chunk_id = bytes_of ''XYZI''
                 then (case ReadXyziChunk f3 vf contents_size children_size of
                         Inl e \<Rightarrow> Some (Inl (e, vf)) | Inr s \<Rightarrow> Some (Inr s))
               else if chunk_id = bytes_of ''RGBA''
                 then Some (Inr (ReadRgbaChunk f3 vf contents_size children_size))
               else Some (Inr (f3, vf))) in
      case r of
        None \<Rightarrow> None
      | Some (Inl ex) \<Rightarrow> Some (Inl ex)
      | Some (Inr (f4, vf')) \<Rightarrow> Some (Inr (seekg f4 next_chunk_pos, vf')))"
| "ReadMainChunk n file vf contents_size children_size =
     (let f1 = seekg_cur file contents_size;
          end_pos = (word_of_int (tellg f1) :: u32) + children_size in
      ReadMainChunk_loop n end_pos f1 vf)"
| "ReadMainChunk_loop 0 end_pos file vf = None"
| "ReadMainChunk_loop (Suc n) end_pos file vf =
     (if tellg file < uint end_pos then
        (case ReadChunk n file vf of
           None \<Rightarrow> None
         | Some (Inl ex) \<Rightarrow> Some (Inl ex)
         | Some (Inr (f', vf')) \<Rightarrow> ReadMainChunk_loop n end_pos f' vf')
      else Some (Inr (file, vf)))"

subsection \<open>Load\<close>

text \<open>
  \<open>Load\<close> opens the file, clears \<open>dense_models_\<close> (and nothing else), checks the
  signature, reads the version and one chunk, and assigns \<open>palette_\<close> to every dense
  model.
\<close>

definition Load :: "nat \<Rightarrow> env \<Rightarrow> string \<Rightarrow> VoxFile \<Rightarrow> ((exn \<times> VoxFile) + VoxFile) option" where
  "Load fuel e path vf =
     (let file = ifstream_open e path;
          vf1 = vf\<lparr>dense_models := []\<rparr> in
      case ReadId file ''VOX '' of
        Inl ex \<Rightarrow> Some (Inl (ex, vf1))
      | Inr f1 \<Rightarrow>
          (let (version, f2) = le_i32read f1 in
           case ReadChunk fuel f2 vf1 of
             None \<Rightarrow> None
           | Some (Inl ex) \<Rightarrow> Some (Inl ex)
           | Some (Inr (f3, vf2)) \<Rightarrow>
               Some (Inr (vf2\<lparr>dense_models :=
                            map (\<lambda>model. model\<lparr>dm_palette := Some (palette vf2)\<rparr>)
                                (dense_models vf2)\<rparr>))))"

section \<open>Notions used in the statements\<close>

text \<open>
  The records an \<open>XYZI\<close> chunk holds are the ones the loop of \<open>ReadXyziChunk\<close>
  reads: \<open>xyzi_records n file\<close> are the next \<open>n\<close> four-byte records of the stream
  and \<open>xyzi_rest n file\<close> is the stream after them. \<open>cell_of\<close> is the offset at
  which \<open>VoxDenseModel::voxel\<close> finds a record's cell, \<open>cell_count\<close> the number of
  cells the constructor allocates, and \<open>write_cells\<close> writes records into a grid in
  order.
\<close>

fun xyzi_records :: "nat \<Rightarrow> ifstream \<Rightarrow> Voxel list" where
  "xyzi_records 0 file = []"
| "xyzi_records (Suc n) file =
     (let (x, f1) = read_uint8 file; (y, f2) = read_uint8 f1;
          (z, f3) = read_uint8 f2; (c, f4) = read_uint8 f3 in
      \<lparr>vox_x = x, vox_y = y, vox_z = z, vox_color = c\<rparr> # xyzi_records n f4)"

fun xyzi_rest :: "nat \<Rightarrow> ifstream \<Rightarrow> ifstream" where
  "xyzi_rest 0 file = file"
| "xyzi_rest (Suc n) file =
     (let (x, f1) = read_uint8 file; (y, f2) = read_uint8 f1;
          (z, f3) = read_uint8 f2; (c, f4) = read_uint8 f3 in
      xyzi_rest n f4)"

definition cell_of :: "Vec3i \<Rightarrow> Voxel \<Rightarrow> nat" where
  "cell_of sz v = voxel_index sz (uint (vox_x v)) (uint (vox_y v)) (uint (vox_z v))"

definition cell_count :: "Vec3i \<Rightarrow> nat" where
  "cell_count sz = unat (vec_x sz * vec_y sz * vec_z sz)"

definition write_cells :: "Vec3i \<Rightarrow> Voxel list \<Rightarrow> u8 list \<Rightarrow> u8 list" where
  "write_cells sz vs cells = fold (\<lambda>v g. g[cell_of sz v := vox_color v]) vs cells"

text \<open>
  \<open>only_out_of_range\<close> holds of a result that is a value or the exception
  \<open>std::out_of_range\<close>. \<open>decoded_grid\<close> is the dense model as the loop of
  \<open>ReadXyziChunk\<close> leaves it, before any hidden voxel is removed.
\<close>

definition only_out_of_range :: "exn + 'a \<Rightarrow> bool" where
  "only_out_of_range r = (case r of Inl e \<Rightarrow> e = out_of_range | Inr _ \<Rightarrow> True)"

definition decoded_grid :: "Vec3i \<Rightarrow> Voxel list \<Rightarrow> VoxDenseModel" where
  "decoded_grid sz recs =
     \<lparr>dm_size = sz, dm_voxels = write_cells sz recs (replicate (cell_count sz) 0), dm_palette = None\<rparr>"

text \<open>
  Of an outcome of the chunk reader: the \<open>VoxFile\<close> it leaves, and whether its
  exception, if it is one, satisfies \<open>E\<close>.
\<close>

definition outcome_state :: "(exn \<times> VoxFile) + (ifstream \<times> VoxFile) \<Rightarrow> VoxFile" where
  "outcome_state r = (case r of Inl (e, vf) \<Rightarrow> vf | Inr (f, vf) \<Rightarrow> vf)"

definition outcome_raises :: "(exn \<Rightarrow> bool) \<Rightarrow> (exn \<times> VoxFile) + (ifstream \<times> VoxFile) \<Rightarrow> bool" where
  "outcome_raises E r = (case r of Inl (e, vf) \<Rightarrow> E e | Inr s \<Rightarrow> True)"

text \<open>
  The dispatch of \<open>ReadChunk\<close> on the chunk's tag, by itself: the handler's outcome
  before the cursor is repositioned.
\<close>

definition chunk_handler :: "nat \<Rightarrow> u8 list \<Rightarrow> ifstream \<Rightarrow> VoxFile \<Rightarrow> u32 \<Rightarrow> u32 \<Rightarrow> outcome" where
  "chunk_handler n chunk_id f3 vf contents_size children_size =
     (if chunk_id = bytes_of ''MAIN'' then ReadMainChunk n f3 vf contents_size children_size
      else if chunk_id = bytes_of ''SIZE''
        then Some (Inr (ReadSizeChunk f3 vf contents_size children_size))
      else if chunk_id = bytes_of ''XYZI''
        then (case ReadXyziChunk f3 vf contents_size children_size of
                Inl e \<Rightarrow> Some (Inl (e, vf)) | Inr s \<Rightarrow> Some (Inr s))
      else if chunk_id = bytes_of ''RGBA''
        then Some (Inr (ReadRgbaChunk f3 vf contents_size children_size))
      else Some (Inr (f3, vf)))"



text \<open>
  The replay of a sparse model, independent of the dense model's code: an all-zero
  grid of the cells of the model's size, and each entry's colour written, in list
  order, at the offset \<open>x + y * size.x + z * size.x * size.y\<close> of its coordinate.
  An entry whose offset is not in the grid writes nothing. \<open>replayed_grid\<close> counts
  cells and offsets in the natural numbers, \<open>replayed_grid32\<close> modulo \<open>2 ^ 32\<close>;
  \<open>fits32\<close> holds of a sparse model when the two agree on every number involved.
\<close>

definition plain_offset :: "Vec3i \<Rightarrow> Voxel \<Rightarrow> nat" where
  "plain_offset sz v =
     unat (vox_x v) + unat (vox_y v) * unat (vec_x sz) +
       unat (vox_z v) * unat (vec_x sz) * unat (vec_y sz)"

definition plain_cells :: "Vec3i \<Rightarrow> nat" where
  "plain_cells sz = unat (vec_x sz) * unat (vec_y sz) * unat (vec_z sz)"

definition written_grid :: "(Voxel \<Rightarrow> nat) \<Rightarrow> nat \<Rightarrow> Voxel list \<Rightarrow> u8 list" where
  "written_grid offset cells vs = fold (\<lambda>v g. g[offset v := vox_color v]) vs (replicate cells 0)"

definition replayed_grid :: "VoxSparseModel \<Rightarrow> u8 list" where
  "replayed_grid sparse =
     written_grid (plain_offset (sm_size sparse)) (plain_cells (sm_size sparse)) (sm_voxels sparse)"

definition replayed_grid32 :: "VoxSparseModel \<Rightarrow> u8 list" where
  "replayed_grid32 sparse =
     written_grid (\<lambda>v. plain_offset (sm_size sparse) v mod 2 ^ 32)
       (plain_cells (sm_size sparse) mod 2 ^ 32) (sm_voxels sparse)"

definition fits32 :: "VoxSparseModel \<Rightarrow> bool" where
  "fits32 sparse =
     (plain_cells (sm_size sparse) < 2 ^ 32 \<and>
      list_all (\<lambda>v. plain_offset (sm_size sparse) v < 2 ^ 32) (sm_voxels sparse))"

text \<open>
  \<open>paired rh (dense, sparse)\<close> collects what the two models appended by one \<open>XYZI\<close>
  chunk always have in common, under the culling flag \<open>rh\<close>: the same size, a grid of
  that size's cells, the default palette on the sparse model and none yet on the
  dense one, and, without culling, a grid that is the replay of the sparse list.
  \<open>grows vf vf'\<close>: the loader's state \<open>vf'\<close> is \<open>vf\<close> with such pairs appended, the
  dense ones to \<open>dense_models_\<close> if dense output is on, the sparse ones to
  \<open>sparse_models_\<close> if sparse output is on, and the flags unchanged. It bounds what
  any run of the chunk reader can do to the collections.
\<close>

definition paired :: "bool \<Rightarrow> VoxDenseModel \<times> VoxSparseModel \<Rightarrow> bool" where
  "paired rh p =
     (case p of (dense, sparse) \<Rightarrow>
        sm_palette sparse = kDefaultPalette \<and> dm_palette dense = None \<and>
        dm_size dense = sm_size sparse \<and>
        length (dm_voxels dense) = plain_cells (sm_size sparse) mod 2 ^ 32 \<and>
        (if rh then True else dm_voxels dense = replayed_grid32 sparse))"

definition grows :: "VoxFile \<Rightarrow> VoxFile \<Rightarrow> bool" where
  "grows vf vf' =
     (load_dense vf' = load_dense vf \<and> load_sparse vf' = load_sparse vf \<and>
      remove_hidden_voxels vf' = remove_hidden_voxels vf \<and>
      (\<exists>ms. list_all (paired (remove_hidden_voxels vf)) ms \<and>
         dense_models vf' = dense_models vf @ (if load_dense vf then map fst ms else []) \<and>
         sparse_models vf' = sparse_models vf @ (if load_sparse vf then map snd ms else [])))"

text \<open>
  \<open>color_at bs k\<close> is the colour record at offset \<open>k\<close> of the bytes \<open>bs\<close>, and
  \<open>rgba_palette bs pos pal\<close> is the palette \<open>pal\<close> after the 255 records from offset
  \<open>pos\<close> on are stored at the indices 1 to 255.
\<close>

definition color_at :: "u8 list \<Rightarrow> nat \<Rightarrow> Color" where
  "color_at bs k = \<lparr>col_r = bs ! k, col_g = bs ! (k + 1), col_b = bs ! (k + 2), col_a = bs ! (k + 3)\<rparr>"

definition rgba_palette :: "u8 list \<Rightarrow> nat \<Rightarrow> Palette \<Rightarrow> Palette" where
  "rgba_palette bs pos pal = fold (\<lambda>i p. p[i := color_at bs (pos + 4 * (i - 1))]) [1..<256] pal"

text \<open>
  \<open>fades dense dense'\<close>: the grid of \<open>dense'\<close> is the grid of \<open>dense\<close> with some
  cells set to zero.
\<close>

definition fades :: "VoxDenseModel \<Rightarrow> VoxDenseModel \<Rightarrow> bool" where
  "fades dense dense' =
     (dm_size dense' = dm_size dense \<and> length (dm_voxels dense') = length (dm_voxels dense) \<and>
      (\<forall>i < length (dm_voxels dense).
         dm_voxels dense' ! i = dm_voxels dense ! i \<or> dm_voxels dense' ! i = 0))"


section \<open>The file format\<close>

text \<open>
  The format as its description gives it, independent of the loader. All integers are
  little-endian: \<open>le32\<close> are the four bytes of a 32-bit value. A chunk is a four-byte
  tag, the size of its contents, the size of its children, and the contents. The
  contents of a \<open>SIZE\<close> chunk are three 32-bit values; those of an \<open>XYZI\<close> chunk
  the number of voxels and four bytes (\<open>record_bytes\<close>) for each; those of an
  \<open>RGBA\<close> chunk 256 colour records of four bytes. \<open>vox_bytes cs\<close> is the file
  with the signature, version 150 and a \<open>MAIN\<close> chunk whose children are the chunks
  \<open>cs\<close>. Such a file is \<open>well_formed\<close> when every \<open>RGBA\<close> chunk has its 1024
  bytes, every other tag is four non-zero bytes that are not one of the four tags the
  loader knows, and the file is shorter than \<open>2 ^ 32\<close> bytes.
\<close>

definition record_bytes :: "Voxel \<Rightarrow> u8 list" where
  "record_bytes v = [vox_x v, vox_y v, vox_z v, vox_color v]"

definition le32 :: "u32 \<Rightarrow> u8 list" where
  "le32 w = [ucast w, ucast (drop_bit 8 w), ucast (drop_bit 16 w), ucast (drop_bit 24 w)]"

datatype chunk =
  Size_chunk Vec3i | Xyzi_chunk "Voxel list" | Rgba_chunk "u8 list" | Other_chunk "u8 list" "u8 list"

fun chunk_tag :: "chunk \<Rightarrow> u8 list" where
  "chunk_tag (Size_chunk sz) = bytes_of ''SIZE''"
| "chunk_tag (Xyzi_chunk recs) = bytes_of ''XYZI''"
| "chunk_tag (Rgba_chunk bs) = bytes_of ''RGBA''"
| "chunk_tag (Other_chunk tag bs) = tag"

fun chunk_contents :: "chunk \<Rightarrow> u8 list" where
  "chunk_contents (Size_chunk sz) = le32 (vec_x sz) @ le32 (vec_y sz) @ le32 (vec_z sz)"
| "chunk_contents (Xyzi_chunk recs) = le32 (of_nat (length recs)) @ concat (map record_bytes recs)"
| "chunk_contents (Rgba_chunk bs) = bs"
| "chunk_contents (Other_chunk tag bs) = bs"

definition chunk_bytes :: "chunk \<Rightarrow> u8 list" where
  "chunk_bytes c =
     chunk_tag c @ le32 (of_nat (length (chunk_contents c))) @ le32 0 @ chunk_contents c"

definition vox_bytes :: "chunk list \<Rightarrow> u8 list" where
  "vox_bytes cs =
     bytes_of ''VOX '' @ le32 150 @
     bytes_of ''MAIN'' @ le32 0 @ le32 (of_nat (length (concat (map chunk_bytes cs)))) @
     concat (map chunk_bytes cs)"

fun chunk_ok :: "chunk \<Rightarrow> bool" where
  "chunk_ok (Size_chunk sz) = True"
| "chunk_ok (Xyzi_chunk recs) = True"
| "chunk_ok (Rgba_chunk bs) = (length bs = 1024)"
| "chunk_ok (Other_chunk tag bs) =
     (length tag = 4 \<and> 0 \<notin> set tag \<and>
      tag \<notin> {bytes_of ''MAIN'', bytes_of ''SIZE'', bytes_of ''XYZI'', bytes_of ''RGBA''})"

definition well_formed :: "chunk list \<Rightarrow> bool" where
  "well_formed cs = (list_all chunk_ok cs \<and> length (vox_bytes cs) < 2 ^ 32)"

text \<open>
  What decoding the children of \<open>MAIN\<close> in order does to the loader's state, stated
  on the chunks. \<open>xyzi_models rh sz recs\<close> are the two models of an \<open>XYZI\<close> chunk
  with the records \<open>recs\<close> under the pending size \<open>sz\<close>: the chunk fails with
  \<open>std::out_of_range\<close> when the offset of a record is not a cell of the grid, cells
  and offsets counted modulo \<open>2 ^ 32\<close>; otherwise the dense model is the all-zero
  grid with the records written in order and the sparse model lists the records, and
  with culling on (\<open>rh\<close>) the pair is what \<open>RemoveHiddenVoxels\<close> makes of that grid
  and that list. \<open>after_chunk\<close> is the state after one chunk: \<open>SIZE\<close> sets the
  pending size, \<open>XYZI\<close> appends its models to the collections that are switched on,
  \<open>RGBA\<close> stores its first 255 records at the palette indices 1 to 255, any other
  chunk changes nothing. \<open>after_chunks\<close> decodes a list of chunks and stops at the
  first that fails, with the state as it is then.
\<close>

definition xyzi_models ::
  "bool \<Rightarrow> Vec3i \<Rightarrow> Voxel list \<Rightarrow> exn + (VoxDenseModel \<times> VoxSparseModel)" where
  "xyzi_models rh sz recs =
     (if list_all (\<lambda>v. plain_offset sz v mod 2 ^ 32 < plain_cells sz mod 2 ^ 32) recs then
        (let dense = \<lparr>dm_size = sz,
                      dm_voxels = written_grid (\<lambda>v. plain_offset sz v mod 2 ^ 32)
                                    (plain_cells sz mod 2 ^ 32) recs,
                      dm_palette = None\<rparr>;
             sparse = \<lparr>sm_size = sz, sm_voxels = [], sm_palette = kDefaultPalette\<rparr> in
         if rh then RemoveHiddenVoxels dense sparse recs
         else Inr (dense, sparse\<lparr>sm_voxels := recs\<rparr>))
      else Inl out_of_range)"

fun after_chunk :: "chunk \<Rightarrow> VoxFile \<Rightarrow> exn + VoxFile" where
  "after_chunk (Size_chunk sz) vf = Inr (vf\<lparr>cur_size := sz\<rparr>)"
| "after_chunk (Xyzi_chunk recs) vf =
     (case xyzi_models (remove_hidden_voxels vf) (cur_size vf) recs of
        Inl e \<Rightarrow> Inl e
      | Inr (dense, sparse) \<Rightarrow>
          Inr (vf\<lparr>dense_models :=
                    (if load_dense vf then dense_models vf @ [dense] else dense_models vf),
                  sparse_models :=
                    (if load_sparse vf then sparse_models vf @ [sparse] else sparse_models vf)\<rparr>))"
| "after_chunk (Rgba_chunk bs) vf = Inr (vf\<lparr>palette := rgba_palette bs 0 (palette vf)\<rparr>)"
| "after_chunk (Other_chunk tag bs) vf = Inr vf"

fun after_chunks :: "chunk list \<Rightarrow> VoxFile \<Rightarrow> (exn \<times> VoxFile) + VoxFile" where
  "after_chunks [] vf = Inr vf"
| "after_chunks (c # cs) vf =
     (case after_chunk c vf of Inl e \<Rightarrow> Inl (e, vf) | Inr vf' \<Rightarrow> after_chunks cs vf')"

text \<open>\<open>is_xyzi\<close> tells the chunks that hold a model.\<close>

fun is_xyzi :: "chunk \<Rightarrow> bool" where
  "is_xyzi (Xyzi_chunk recs) = True"
| "is_xyzi c = False"
section \<open>Concrete inputs\<close>

text \<open>
  \<open>file_a\<close> is a complete file: signature, version 150, and a \<open>MAIN\<close> chunk whose
  children are \<open>SIZE\<close> (1, 1, 1) and \<open>XYZI\<close> with the one voxel (0, 0, 0) of
  colour 5. \<open>env_of\<close> is the environment that holds one file under the name
  \<open>model.vox\<close> and zeroes in uninitialised memory.
\<close>

definition file_a :: "u8 list" where
  "file_a = bytes_of ''VOX '' @ [150, 0, 0, 0] @
     bytes_of ''MAIN'' @ [0, 0, 0, 0] @ [44, 0, 0, 0] @
     bytes_of ''SIZE'' @ [12, 0, 0, 0] @ [0, 0, 0, 0] @ [1, 0, 0, 0, 1, 0, 0, 0, 1, 0, 0, 0] @
     bytes_of ''XYZI'' @ [8, 0, 0, 0] @ [0, 0, 0, 0] @ [1, 0, 0, 0] @ [0, 0, 0, 5]"

definition env_of :: "u8 list \<Rightarrow> env" where
  "env_of bs = \<lparr>files = (\<lambda>p. if p = ''model.vox'' then Some bs else None), uninit = (\<lambda>_. 0)\<rparr>"

definition stream_at :: "u8 list \<Rightarrow> nat \<Rightarrow> ifstream" where
  "stream_at bs pos = \<lparr>content = bs, gpos = pos, failbit = False, indet = (\<lambda>_. 0), drawn = 0\<rparr>"

text \<open>
  \<open>truncated_size\<close> is a \<open>SIZE\<close> chunk that declares 12 bytes of contents and is
  cut off after the first four of them.
\<close>

definition truncated_size :: "u8 list" where
  "truncated_size = bytes_of ''SIZE'' @ [12, 0, 0, 0] @ [0, 0, 0, 0] @ [1, 0, 0, 0]"

text \<open>
  \<open>file_x3\<close> declares a 2 x 2 x 2 model and one voxel at x = 3, outside the model.
  \<open>file_z1\<close> declares a 1 x 1 x 1 model and one voxel at z = 1, whose offset is outside
  the grid. \<open>file_colour0\<close> holds one record whose colour index is 0.
\<close>

definition file_x3 :: "u8 list" where
  "file_x3 = bytes_of ''VOX '' @ [150, 0, 0, 0] @
     bytes_of ''MAIN'' @ [0, 0, 0, 0] @ [44, 0, 0, 0] @
     bytes_of ''SIZE'' @ [12, 0, 0, 0] @ [0, 0, 0, 0] @ [2, 0, 0, 0, 2, 0, 0, 0, 2, 0, 0, 0] @
     bytes_of ''XYZI'' @ [8, 0, 0, 0] @ [0, 0, 0, 0] @ [1, 0, 0, 0] @ [3, 0, 0, 9]"

definition file_z1 :: "u8 list" where
  "file_z1 = bytes_of ''VOX '' @ [150, 0, 0, 0] @
     bytes_of ''MAIN'' @ [0, 0, 0, 0] @ [44, 0, 0, 0] @
     bytes_of ''SIZE'' @ [12, 0, 0, 0] @ [0, 0, 0, 0] @ [1, 0, 0, 0, 1, 0, 0, 0, 1, 0, 0, 0] @
     bytes_of ''XYZI'' @ [8, 0, 0, 0] @ [0, 0, 0, 0] @ [1, 0, 0, 0] @ [0, 0, 1, 5]"

definition file_colour0 :: "u8 list" where
  "file_colour0 = bytes_of ''VOX '' @ [150, 0, 0, 0] @
     bytes_of ''MAIN'' @ [0, 0, 0, 0] @ [44, 0, 0, 0] @
     bytes_of ''SIZE'' @ [12, 0, 0, 0] @ [0, 0, 0, 0] @ [1, 0, 0, 0, 1, 0, 0, 0, 1, 0, 0, 0] @
     bytes_of ''XYZI'' @ [8, 0, 0, 0] @ [0, 0, 0, 0] @ [1, 0, 0, 0] @ [0, 0, 0, 0]"

text \<open>The loader's state when it reaches the \<open>XYZI\<close> chunk of a file whose \<open>SIZE\<close> is
  \<open>(sx, sy, sz)\<close>, with dense and sparse output and the given culling flag.\<close>

definition at_xyzi :: "bool \<Rightarrow> u32 \<Rightarrow> u32 \<Rightarrow> u32 \<Rightarrow> VoxFile" where
  "at_xyzi rh sx sy sz = (VoxFile_new True True rh)\<lparr>cur_size := \<lparr>vec_x = sx, vec_y = sy, vec_z = sz\<rparr>\<rparr>"

text \<open>
  \<open>solid_box xs ys zs c\<close> lists the voxels of colour \<open>c\<close> at the coordinates
  \<open>xs\<close> x \<open>ys\<close> x \<open>zs\<close>, x running fastest.
\<close>

definition solid_box :: "u8 list \<Rightarrow> u8 list \<Rightarrow> u8 list \<Rightarrow> u8 \<Rightarrow> Voxel list" where
  "solid_box xs ys zs c =
     concat (map (\<lambda>z. concat (map (\<lambda>y.
       map (\<lambda>x. \<lparr>vox_x = x, vox_y = y, vox_z = z, vox_color = c\<rparr>) xs) ys)) zs)"

text \<open>
  \<open>file_alias\<close>: a 2 x 2 x 2 model with the voxel (1, 1, 0) given twice, colours 5 and
  6, and then a voxel at (3, 0, 0), colour 9, whose offset is the one of (1, 1, 0).
  \<open>file_dup_centre\<close>: a solid 3 x 3 x 3 cube of colour 7, and its centre (1, 1, 1)
  given once more at the end with colour 8. \<open>xyzi_dup\<close> are the contents of an
  \<open>XYZI\<close> chunk with the voxel (1, 1, 0) given twice, colours 5 and 6.
\<close>

definition file_alias :: "u8 list" where
  "file_alias = bytes_of ''VOX '' @ [150, 0, 0, 0] @
     bytes_of ''MAIN'' @ [0, 0, 0, 0] @ [52, 0, 0, 0] @
     bytes_of ''SIZE'' @ [12, 0, 0, 0] @ [0, 0, 0, 0] @ [2, 0, 0, 0, 2, 0, 0, 0, 2, 0, 0, 0] @
     bytes_of ''XYZI'' @ [16, 0, 0, 0] @ [0, 0, 0, 0] @ [3, 0, 0, 0] @
       [1, 1, 0, 5] @ [1, 1, 0, 6] @ [3, 0, 0, 9]"



text \<open>
  \<open>file_second_bad\<close>: a 1 x 1 x 1 model with its voxel, followed by a second
  \<open>XYZI\<close> chunk whose voxel (0, 0, 1) is outside the grid.
  \<open>file_truncated\<close>: signature and version, then a chunk with the unknown tag
  \<open>ABCD\<close> whose header is cut off after two bytes of its contents size.
\<close>

definition file_second_bad :: "u8 list" where
  "file_second_bad = bytes_of ''VOX '' @ [150, 0, 0, 0] @
     bytes_of ''MAIN'' @ [0, 0, 0, 0] @ [64, 0, 0, 0] @
     bytes_of ''SIZE'' @ [12, 0, 0, 0] @ [0, 0, 0, 0] @ [1, 0, 0, 0, 1, 0, 0, 0, 1, 0, 0, 0] @
     bytes_of ''XYZI'' @ [8, 0, 0, 0] @ [0, 0, 0, 0] @ [1, 0, 0, 0] @ [0, 0, 0, 5] @
     bytes_of ''XYZI'' @ [8, 0, 0, 0] @ [0, 0, 0, 0] @ [1, 0, 0, 0] @ [0, 0, 1, 5]"

definition file_truncated :: "u8 list" where
  "file_truncated = bytes_of ''VOX '' @ [150, 0, 0, 0] @ bytes_of ''ABCD'' @ [8, 0]"

text \<open>
  \<open>file_box\<close>: a solid block of 4 x 3 x 3 voxels of colour 7 in a model of that
  size. Its two interior voxels are (1, 1, 1) and (2, 1, 1).
\<close>

definition file_box :: "u8 list" where
  "file_box = bytes_of ''VOX '' @ [150, 0, 0, 0] @
     bytes_of ''MAIN'' @ [0, 0, 0, 0] @ [184, 0, 0, 0] @
     bytes_of ''SIZE'' @ [12, 0, 0, 0] @ [0, 0, 0, 0] @ [4, 0, 0, 0, 3, 0, 0, 0, 3, 0, 0, 0] @
     bytes_of ''XYZI'' @ [148, 0, 0, 0] @ [0, 0, 0, 0] @ [36, 0, 0, 0] @
       concat (map record_bytes (solid_box [0, 1, 2, 3] [0, 1, 2] [0, 1, 2] 7))"

text \<open>
  \<open>file_rgba\<close>: the model of \<open>file_a\<close> followed by an \<open>RGBA\<close> chunk of 256 colour
  records, every byte \<open>0x11\<close>.
\<close>

definition file_rgba :: "u8 list" where
  "file_rgba = bytes_of ''VOX '' @ [150, 0, 0, 0] @
     bytes_of ''MAIN'' @ [0, 0, 0, 0] @ [0x38, 0x04, 0, 0] @
     bytes_of ''SIZE'' @ [12, 0, 0, 0] @ [0, 0, 0, 0] @ [1, 0, 0, 0, 1, 0, 0, 0, 1, 0, 0, 0] @
     bytes_of ''XYZI'' @ [8, 0, 0, 0] @ [0, 0, 0, 0] @ [1, 0, 0, 0] @ [0, 0, 0, 5] @
     bytes_of ''RGBA'' @ [0, 4, 0, 0] @ [0, 0, 0, 0] @ replicate 1024 0x11"

text \<open>
  \<open>file_cut_in_main\<close>: a \<open>MAIN\<close> chunk that declares 44 bytes of children and ends
  inside its first child, a \<open>SIZE\<close> chunk with four of its twelve bytes.
\<close>

definition file_cut_in_main :: "u8 list" where
  "file_cut_in_main = bytes_of ''VOX '' @ [150, 0, 0, 0] @
     bytes_of ''MAIN'' @ [0, 0, 0, 0] @ [44, 0, 0, 0] @
     bytes_of ''SIZE'' @ [12, 0, 0, 0] @ [0, 0, 0, 0] @ [1, 0, 0, 0]"

text \<open>
  The two scenarios of the format's documentation: a solid 2 x 2 x 2 cube of colour 5
  and a solid 3 x 3 x 3 cube of colour 7.
\<close>

definition file_cube2 :: "u8 list" where
  "file_cube2 = bytes_of ''VOX '' @ [150, 0, 0, 0] @
     bytes_of ''MAIN'' @ [0, 0, 0, 0] @ [72, 0, 0, 0] @
     bytes_of ''SIZE'' @ [12, 0, 0, 0] @ [0, 0, 0, 0] @ [2, 0, 0, 0, 2, 0, 0, 0, 2, 0, 0, 0] @
     bytes_of ''XYZI'' @ [36, 0, 0, 0] @ [0, 0, 0, 0] @ [8, 0, 0, 0] @
       concat (map record_bytes (solid_box [0, 1] [0, 1] [0, 1] 5))"

definition file_cube3 :: "u8 list" where
  "file_cube3 = bytes_of ''VOX '' @ [150, 0, 0, 0] @
     bytes_of ''MAIN'' @ [0, 0, 0, 0] @ [148, 0, 0, 0] @
     bytes_of ''SIZE'' @ [12, 0, 0, 0] @ [0, 0, 0, 0] @ [3, 0, 0, 0, 3, 0, 0, 0, 3, 0, 0, 0] @
     bytes_of ''XYZI'' @ [112, 0, 0, 0] @ [0, 0, 0, 0] @ [27, 0, 0, 0] @
       concat (map record_bytes (solid_box [0, 1, 2] [0, 1, 2] [0, 1, 2] 7))"


text \<open>
  \<open>file_wide\<close> declares a 65536 x 65536 x 1 model and an \<open>XYZI\<close> chunk with no
  voxel.
\<close>

definition file_wide :: "u8 list" where
  "file_wide = bytes_of ''VOX '' @ [150, 0, 0, 0] @
     bytes_of ''MAIN'' @ [0, 0, 0, 0] @ [40, 0, 0, 0] @
     bytes_of ''SIZE'' @ [12, 0, 0, 0] @ [0, 0, 0, 0] @ [0, 0, 1, 0, 0, 0, 1, 0, 1, 0, 0, 0] @
     bytes_of ''XYZI'' @ [4, 0, 0, 0] @ [0, 0, 0, 0] @ [0, 0, 0, 0]"

text \<open>\<open>second_bad_chunks\<close> are the children of \<open>MAIN\<close> in \<open>file_second_bad\<close>.\<close>

definition second_bad_chunks :: "chunk list" where
  "second_bad_chunks =
     [Size_chunk \<lparr>vec_x = 1, vec_y = 1, vec_z = 1\<rparr>,
      Xyzi_chunk [\<lparr>vox_x = 0, vox_y = 0, vox_z = 0, vox_color = 5\<rparr>],
      Xyzi_chunk [\<lparr>vox_x = 0, vox_y = 0, vox_z = 1, vox_color = 5\<rparr>]]"
section \<open>Lemmas\<close>

subsection \<open>The stream\<close>

lemma ifstream_read_failbit:
  "failbit f \<Longrightarrow> failbit (snd (ifstream_read f n))"
  by (simp add: ifstream_read_def)

lemma ifstream_read_good:
  assumes "\<not> failbit (snd (ifstream_read f n))"
  shows "\<not> failbit f \<and> n \<le> length (content f) - gpos f \<and>
         ifstream_read f n = (take n (drop (gpos f) (content f)), f\<lparr>gpos := gpos f + n\<rparr>)"
  using assms by (auto simp: ifstream_read_def Let_def split: if_splits)

lemma le_u32read_failbit: "failbit f \<Longrightarrow> failbit (snd (le_u32read f))"
  by (simp add: le_u32read_def split_beta ifstream_read_failbit)

lemma le_u32read_good:
  assumes "\<not> failbit (snd (le_u32read f))"
  shows "\<not> failbit f \<and> gpos (snd (le_u32read f)) = gpos f + 4"
  using assms ifstream_read_good [of f 4]
  by (simp add: le_u32read_def split_beta)

lemma read_uint8_failbit: "failbit f \<Longrightarrow> failbit (snd (read_uint8 f))"
  by (simp add: read_uint8_def read_byte_def split_beta ifstream_read_failbit)

lemma read_byte_failbit: "failbit f \<Longrightarrow> failbit (snd (read_byte f))"
  by (simp add: read_byte_def split_beta ifstream_read_failbit)

lemma seekg_failbit [simp]: "failbit (seekg f p) = failbit f"
  by (simp add: seekg_def)

lemma seekg_cur_failbit [simp]: "failbit (seekg_cur f p) = failbit f"
  by (simp add: seekg_cur_def)

lemma xyzi_rest_failbit: "failbit f \<Longrightarrow> failbit (xyzi_rest n f)"
proof (induction n arbitrary: f)
  case 0
  then show ?case by simp
next
  case (Suc n)
  have "failbit (snd (read_uint8 (snd (read_uint8 (snd (read_uint8 (snd (read_uint8 f))))))))"
    using Suc.prems by (intro read_uint8_failbit)
  then show ?case
    by (simp add: split_beta Suc.IH)
qed

lemma ReadSizeChunk_failbit:
  "failbit f \<Longrightarrow> failbit (fst (ReadSizeChunk f vf cs chs))"
  by (simp add: ReadSizeChunk_def split_beta le_u32read_failbit)

lemma ReadRgbaChunk_step_failbit:
  "failbit (fst s) \<Longrightarrow> failbit (fst (ReadRgbaChunk_step i s))"
  by (simp add: ReadRgbaChunk_step_def split_beta read_byte_failbit)

lemma fold_ReadRgbaChunk_step_failbit:
  "failbit (fst s) \<Longrightarrow> failbit (fst (fold ReadRgbaChunk_step is s))"
  by (induction "is" arbitrary: s) (simp_all add: ReadRgbaChunk_step_failbit)

lemma ReadRgbaChunk_failbit:
  "failbit f \<Longrightarrow> failbit (fst (ReadRgbaChunk f vf cs chs))"
  by (simp add: ReadRgbaChunk_def fold_ReadRgbaChunk_step_failbit)

lemma read_chunk_header_failbit:
  "failbit f \<Longrightarrow> failbit (snd (snd (snd (read_chunk_header f))))"
  by (simp add: read_chunk_header_def split_beta le_u32read_failbit ifstream_read_failbit)

lemma read_chunk_header_good:
  assumes "read_chunk_header f = (chunk_id, contents_size, children_size, f3)"
    and "\<not> failbit f3"
  shows "\<not> failbit f \<and> gpos f3 = gpos f + 12"
proof -
  let ?f1 = "snd (ifstream_read f 4)"
  let ?f2 = "snd (le_u32read ?f1)"
  have f3: "f3 = snd (le_u32read ?f2)"
    using assms(1) by (simp add: read_chunk_header_def split_beta)
  from assms(2) f3 have 3: "\<not> failbit ?f2" "gpos f3 = gpos ?f2 + 4"
    using le_u32read_good [of ?f2] by simp_all
  then have 2: "\<not> failbit ?f1" "gpos ?f2 = gpos ?f1 + 4"
    using le_u32read_good [of ?f1] by simp_all
  then have 1: "\<not> failbit f" "gpos ?f1 = gpos f + 4"
    using ifstream_read_good [of f 4] by simp_all
  from 1 2 3 show ?thesis by simp
qed

subsection \<open>The decoding loop of an XYZI chunk\<close>

lemma length_write_cells [simp]: "length (write_cells sz vs cells) = length cells"
  unfolding write_cells_def by (induction vs arbitrary: cells) simp_all

lemma write_cells_Cons [simp]:
  "write_cells sz (v # vs) cells = write_cells sz vs (cells[cell_of sz v := vox_color v])"
  by (simp add: write_cells_def)

lemma write_cells_Nil [simp]: "write_cells sz [] cells = cells"
  by (simp add: write_cells_def)

lemma voxel_assign_cell:
  "voxel_assign m (uint (vox_x v)) (uint (vox_y v)) (uint (vox_z v)) c =
     (if cell_of (dm_size m) v < length (dm_voxels m)
      then Inr (m\<lparr>dm_voxels := (dm_voxels m)[cell_of (dm_size m) v := c]\<rparr>)
      else Inl out_of_range)"
  by (simp add: voxel_assign_def cell_of_def)

lemma ReadXyziChunk_loop_eq:
  "ReadXyziChunk_loop n f dense voxels =
     (if \<forall>v \<in> set (xyzi_records n f). cell_of (dm_size dense) v < length (dm_voxels dense)
      then Inr (xyzi_rest n f,
                dense\<lparr>dm_voxels := write_cells (dm_size dense) (xyzi_records n f) (dm_voxels dense)\<rparr>,
                voxels @ xyzi_records n f)
      else Inl out_of_range)"
proof (induction n arbitrary: f dense voxels)
  case 0
  show ?case by simp
next
  case (Suc n)
  obtain x f1 where r1: "read_uint8 f = (x, f1)" by (cases "read_uint8 f")
  obtain y f2 where r2: "read_uint8 f1 = (y, f2)" by (cases "read_uint8 f1")
  obtain z f3 where r3: "read_uint8 f2 = (z, f3)" by (cases "read_uint8 f2")
  obtain c f4 where r4: "read_uint8 f3 = (c, f4)" by (cases "read_uint8 f3")
  let ?v = "\<lparr>vox_x = x, vox_y = y, vox_z = z, vox_color = c\<rparr>"
  have va: "voxel_assign dense (uint x) (uint y) (uint z) c =
     (if cell_of (dm_size dense) ?v < length (dm_voxels dense)
      then Inr (dense\<lparr>dm_voxels := (dm_voxels dense)[cell_of (dm_size dense) ?v := c]\<rparr>)
      else Inl out_of_range)"
    using voxel_assign_cell [of dense ?v c] by simp
  show ?case
    by (simp add: r1 r2 r3 r4 va Suc.IH)
qed

subsection \<open>Exceptions of the dense model\<close>

lemma only_out_of_range_Inr [simp]: "only_out_of_range (Inr b)"
  by (simp add: only_out_of_range_def)

lemma only_out_of_range_Inl [simp]: "only_out_of_range (Inl e) = (e = out_of_range)"
  by (simp add: only_out_of_range_def)

lemma only_out_of_range_voxel [simp]: "only_out_of_range (voxel m x y z)"
  by (simp add: voxel_def Let_def)

lemma only_out_of_range_voxel_assign [simp]: "only_out_of_range (voxel_assign m x y z c)"
  by (simp add: voxel_assign_def Let_def)

lemma only_out_of_range_nonzero [simp]: "only_out_of_range r \<Longrightarrow> only_out_of_range (nonzero r)"
  by (cases r) (simp_all add: nonzero_def)

lemma only_out_of_range_and_also [simp]:
  "only_out_of_range p \<Longrightarrow> only_out_of_range q \<Longrightarrow> only_out_of_range (and_also p q)"
  by (cases p) (simp_all add: and_also_def)

lemma only_out_of_range_is_hidden [simp]: "only_out_of_range (is_hidden dense v)"
  by (simp add: is_hidden_def Let_def)

lemma voxel_assign_frame:
  assumes "voxel_assign m x y z c = Inr m'"
  shows "dm_size m' = dm_size m \<and> length (dm_voxels m') = length (dm_voxels m) \<and>
         dm_palette m' = dm_palette m"
  using assms by (auto simp: voxel_assign_def Let_def split: if_splits)

lemma RemoveHiddenVoxels_result:
  "RemoveHiddenVoxels dense sparse voxels = Inr (dense', sparse') \<Longrightarrow>
     dm_size dense' = dm_size dense \<and> length (dm_voxels dense') = length (dm_voxels dense) \<and>
     dm_palette dense' = dm_palette dense \<and>
     sm_size sparse' = sm_size sparse \<and> sm_palette sparse' = sm_palette sparse \<and>
     set (sm_voxels sparse') \<subseteq> set (sm_voxels sparse) \<union> set voxels"
proof (induction voxels arbitrary: dense sparse)
  case Nil
  then show ?case by simp
next
  case (Cons v voxels)
  show ?case
  proof (cases "is_hidden dense v")
    case (Inl e)
    with Cons.prems show ?thesis by simp
  next
    case (Inr b)
    show ?thesis
    proof (cases b)
      case True
      with Inr Cons.prems obtain d1 where
        d1: "voxel_assign dense (uint (vox_x v)) (uint (vox_y v)) (uint (vox_z v)) 0 = Inr d1"
        and rec: "RemoveHiddenVoxels d1 sparse voxels = Inr (dense', sparse')"
        by (auto split: sum.splits)
      from Cons.IH [OF rec] voxel_assign_frame [OF d1] show ?thesis by auto
    next
      case False
      with Inr Cons.prems have
        rec: "RemoveHiddenVoxels dense (sparse\<lparr>sm_voxels := sm_voxels sparse @ [v]\<rparr>) voxels =
                Inr (dense', sparse')"
        by simp
      from Cons.IH [OF rec] show ?thesis by auto
    qed
  qed
qed

lemma RemoveHiddenVoxels_raises:
  "only_out_of_range (RemoveHiddenVoxels dense sparse voxels)"
proof (induction voxels arbitrary: dense sparse)
  case Nil
  show ?case by simp
next
  case (Cons v voxels)
  show ?case
  proof (cases "is_hidden dense v")
    case (Inl e)
    with only_out_of_range_is_hidden [of dense v] show ?thesis by simp
  next
    case (Inr b)
    show ?thesis
    proof (cases b)
      case True
      show ?thesis
      proof (cases "voxel_assign dense (uint (vox_x v)) (uint (vox_y v)) (uint (vox_z v)) 0")
        case (Inl e)
        with only_out_of_range_voxel_assign
          [of dense "uint (vox_x v)" "uint (vox_y v)" "uint (vox_z v)" 0]
        have "e = out_of_range" by simp
        with Inl Inr True show ?thesis by simp
      next
        case (Inr d1)
        with \<open>is_hidden dense v = Inr b\<close> True Cons.IH [of d1 sparse] show ?thesis by simp
      qed
    next
      case False
      with Inr Cons.IH [of dense "sparse\<lparr>sm_voxels := sm_voxels sparse @ [v]\<rparr>"]
      show ?thesis by simp
    qed
  qed
qed

subsection \<open>What an XYZI chunk does\<close>

lemma ReadXyziChunk_eq:
  assumes "le_u32read f = (n_voxels, f1)"
  shows "ReadXyziChunk f vf contents_size children_size =
     (let sz = cur_size vf; recs = xyzi_records (unat n_voxels) f1 in
      if \<forall>v \<in> set recs. cell_of sz v < cell_count sz then
        (case (if remove_hidden_voxels vf
               then RemoveHiddenVoxels (decoded_grid sz recs) (VoxSparseModel_new sz) recs
               else Inr (decoded_grid sz recs, (VoxSparseModel_new sz)\<lparr>sm_voxels := recs\<rparr>)) of
           Inl e \<Rightarrow> Inl e
         | Inr (dense2, sparse2) \<Rightarrow>
             Inr (xyzi_rest (unat n_voxels) f1,
                  vf\<lparr>dense_models :=
                       (if load_dense vf then dense_models vf @ [dense2] else dense_models vf),
                     sparse_models :=
                       (if load_sparse vf then sparse_models vf @ [sparse2]
                        else sparse_models vf)\<rparr>))
      else Inl out_of_range)"
  by (simp add: ReadXyziChunk_def assms ReadXyziChunk_loop_eq VoxDenseModel_new_def
      decoded_grid_def cell_count_def Let_def)

lemma ReadXyziChunk_raises: "only_out_of_range (ReadXyziChunk f vf contents_size children_size)"
proof -
  obtain n f1 where r: "le_u32read f = (n, f1)" by (cases "le_u32read f")
  show ?thesis
    using RemoveHiddenVoxels_raises
      [of "decoded_grid (cur_size vf) (xyzi_records (unat n) f1)" "VoxSparseModel_new (cur_size vf)"
          "xyzi_records (unat n) f1"]
    by (auto simp: ReadXyziChunk_eq [OF r] Let_def split: sum.splits)
qed

lemma ReadXyziChunk_failbit:
  assumes "ReadXyziChunk f vf contents_size children_size = Inr (f', vf')" and "failbit f"
  shows "failbit f'"
proof -
  obtain n f1 where r: "le_u32read f = (n, f1)" by (cases "le_u32read f")
  have "failbit f1" using le_u32read_failbit [OF assms(2)] r by simp
  then have "failbit (xyzi_rest (unat n) f1)" by (rule xyzi_rest_failbit)
  with assms(1) show ?thesis
    by (auto simp: ReadXyziChunk_eq [OF r] Let_def split: sum.splits if_splits)
qed

subsection \<open>Invariants of the chunk tree\<close>

text \<open>
  A relation between the loader's states that is reflexive, transitive and kept by the
  three chunk handlers is kept by the whole chunk tree, whether it returns or raises.
\<close>

lemma ReadChunk_invariant:
  fixes R :: "VoxFile \<Rightarrow> VoxFile \<Rightarrow> bool" and E :: "exn \<Rightarrow> bool"
  assumes refl: "\<And>vf. R vf vf"
    and trans: "\<And>a b c. R a b \<Longrightarrow> R b c \<Longrightarrow> R a c"
    and size: "\<And>f vf cs chs. R vf (snd (ReadSizeChunk f vf cs chs))"
    and rgba: "\<And>f vf cs chs. R vf (snd (ReadRgbaChunk f vf cs chs))"
    and xyzi: "\<And>f vf cs chs f' vf'. ReadXyziChunk f vf cs chs = Inr (f', vf') \<Longrightarrow> R vf vf'"
    and xyzi_raises: "\<And>f vf cs chs e. ReadXyziChunk f vf cs chs = Inl e \<Longrightarrow> E e"
  shows "(\<forall>f vf r. ReadChunk n f vf = Some r \<longrightarrow> R vf (outcome_state r) \<and> outcome_raises E r) \<and>
         (\<forall>f vf cs chs r. ReadMainChunk n f vf cs chs = Some r \<longrightarrow>
            R vf (outcome_state r) \<and> outcome_raises E r) \<and>
         (\<forall>ep f vf r. ReadMainChunk_loop n ep f vf = Some r \<longrightarrow>
            R vf (outcome_state r) \<and> outcome_raises E r)"
proof (induction n)
  case 0
  show ?case by simp
next
  case (Suc n)
  have loop: "R vf (outcome_state r) \<and> outcome_raises E r"
    if "ReadMainChunk_loop (Suc n) ep f vf = Some r" for ep f vf r
  proof (cases "tellg f < uint ep")
    case False
    with that refl show ?thesis by (auto simp: outcome_state_def outcome_raises_def)
  next
    case True
    show ?thesis
    proof (cases "ReadChunk n f vf")
      case None
      with that True show ?thesis by simp
    next
      case (Some r1)
      with Suc.IH have r1: "R vf (outcome_state r1)" "outcome_raises E r1" by auto
      show ?thesis
      proof (cases r1)
        case (Inl ex)
        with that True Some r1 show ?thesis by simp
      next
        case (Inr s)
        obtain f1 vf1 where s: "s = (f1, vf1)" by (cases s)
        with that True Some Inr have "ReadMainChunk_loop n ep f1 vf1 = Some r" by simp
        with Suc.IH have "R vf1 (outcome_state r)" "outcome_raises E r" by auto
        moreover from r1 Inr s have "R vf vf1" by (simp add: outcome_state_def)
        ultimately show ?thesis using trans by blast
      qed
    qed
  qed
  have main: "R vf (outcome_state r) \<and> outcome_raises E r"
    if "ReadMainChunk k f vf cs chs = Some r"
      and "\<And>ep f vf r. ReadMainChunk_loop k ep f vf = Some r \<Longrightarrow>
             R vf (outcome_state r) \<and> outcome_raises E r"
    for k f vf cs chs r
    using that by (simp add: Let_def)
  have chunk: "R vf (outcome_state r) \<and> outcome_raises E r"
    if c: "ReadChunk (Suc n) f vf = Some r" for f vf r
  proof -
    obtain cid cs chs f3 where h: "read_chunk_header f = (cid, cs, chs, f3)"
      by (cases "read_chunk_header f") auto
    let ?next = "(word_of_int (tellg f3) :: u32) + cs + chs"
    define r0 where "r0 =
      (if cid = bytes_of ''MAIN'' then ReadMainChunk n f3 vf cs chs
       else if cid = bytes_of ''SIZE'' then Some (Inr (ReadSizeChunk f3 vf cs chs))
       else if cid = bytes_of ''XYZI''
         then (case ReadXyziChunk f3 vf cs chs of
                 Inl e \<Rightarrow> Some (Inl (e, vf)) | Inr s \<Rightarrow> Some (Inr s))
       else if cid = bytes_of ''RGBA'' then Some (Inr (ReadRgbaChunk f3 vf cs chs))
       else Some (Inr (f3, vf)))"
    have c': "(case r0 of None \<Rightarrow> None | Some (Inl ex) \<Rightarrow> Some (Inl ex)
              | Some (Inr (f4, vf')) \<Rightarrow> Some (Inr (seekg f4 ?next, vf'))) = Some r"
      using c by (simp add: h Let_def r0_def)
    then obtain r1 where r1: "r0 = Some r1" by (cases r0) auto
    have st: "outcome_state r = outcome_state r1" and ra: "outcome_raises E r = outcome_raises E r1"
      using c' r1 by (auto simp: outcome_state_def outcome_raises_def split: sum.splits prod.splits)
    have "R vf (outcome_state r1) \<and> outcome_raises E r1"
    proof (cases "cid = bytes_of ''MAIN''")
      case True
      with r1 have "ReadMainChunk n f3 vf cs chs = Some r1" by (simp add: r0_def)
      with Suc.IH show ?thesis by blast
    next
      case nm: False
      show ?thesis
      proof (cases "cid = bytes_of ''SIZE''")
        case True
        with nm r1 size [of vf f3 cs chs] show ?thesis
          by (auto simp: r0_def outcome_state_def outcome_raises_def split_beta)
      next
        case ns: False
        show ?thesis
        proof (cases "cid = bytes_of ''XYZI''")
          case True
          show ?thesis
          proof (cases "ReadXyziChunk f3 vf cs chs")
            case (Inl e)
            with nm ns True r1 xyzi_raises [OF Inl] refl show ?thesis
              by (auto simp: r0_def outcome_state_def outcome_raises_def)
          next
            case (Inr s)
            obtain f4 vf4 where s: "s = (f4, vf4)" by (cases s)
            with nm ns True r1 Inr xyzi [of f3 vf cs chs f4 vf4] show ?thesis
              by (auto simp: r0_def outcome_state_def outcome_raises_def)
          qed
        next
          case nx: False
          show ?thesis
          proof (cases "cid = bytes_of ''RGBA''")
            case True
            with nm ns nx r1 rgba [of vf f3 cs chs] show ?thesis
              by (auto simp: r0_def outcome_state_def outcome_raises_def split_beta)
          next
            case False
            with nm ns nx r1 refl show ?thesis
              by (auto simp: r0_def outcome_state_def outcome_raises_def)
          qed
        qed
      qed
    qed
    with st ra show ?thesis by simp
  qed
  from loop main [where k = "Suc n"] chunk show ?case by blast
qed

subsection \<open>The fail state is never left\<close>

lemma ReadChunk_Suc:
  assumes "read_chunk_header f = (chunk_id, contents_size, children_size, f3)"
  shows "ReadChunk (Suc n) f vf =
     (case chunk_handler n chunk_id f3 vf contents_size children_size of
        None \<Rightarrow> None
      | Some (Inl ex) \<Rightarrow> Some (Inl ex)
      | Some (Inr (f4, vf')) \<Rightarrow>
          Some (Inr (seekg f4 (word_of_int (tellg f3) + contents_size + children_size), vf')))"
  unfolding ReadChunk.simps assms chunk_handler_def Let_def prod.case ..

lemma ReadChunk_Inr:
  assumes "ReadChunk fuel f vf = Some (Inr (f', vf'))"
    and "read_chunk_header f = (chunk_id, contents_size, children_size, f3)"
  obtains n f4 where "fuel = Suc n"
    and "chunk_handler n chunk_id f3 vf contents_size children_size = Some (Inr (f4, vf'))"
    and "f' = seekg f4 (word_of_int (tellg f3) + contents_size + children_size)"
proof -
  from assms(1) obtain n where fuel: "fuel = Suc n" by (cases fuel) auto
  show thesis
  proof (cases "chunk_handler n chunk_id f3 vf contents_size children_size")
    case None
    with assms(1) show ?thesis unfolding fuel ReadChunk_Suc [OF assms(2)] by simp
  next
    case (Some r)
    show ?thesis
    proof (cases r)
      case (Inl ex)
      with Some assms(1) show ?thesis unfolding fuel ReadChunk_Suc [OF assms(2)] by simp
    next
      case (Inr s)
      obtain f4 vf4 where s: "s = (f4, vf4)" by (cases s)
      with Some Inr assms(1) have "vf4 = vf'"
        and "f' = seekg f4 (word_of_int (tellg f3) + contents_size + children_size)"
        unfolding fuel ReadChunk_Suc [OF assms(2)] by simp_all
      with Some Inr s fuel that show ?thesis by blast
    qed
  qed
qed


lemma chunk_handler_failbit:
  assumes "chunk_handler n cid f3 vf cs chs = Some (Inr (f4, vf'))"
    and "failbit f3"
    and main: "\<And>f' vf'. ReadMainChunk n f3 vf cs chs = Some (Inr (f', vf')) \<Longrightarrow> failbit f'"
  shows "failbit f4"
proof (cases "cid = bytes_of ''MAIN''")
  case True
  with assms(1) main show ?thesis by (simp add: chunk_handler_def)
next
  case nm: False
  show ?thesis
  proof (cases "cid = bytes_of ''SIZE''")
    case True
    with nm assms(1) ReadSizeChunk_failbit [OF assms(2), of vf cs chs] show ?thesis
      by (auto simp: chunk_handler_def)
  next
    case ns: False
    show ?thesis
    proof (cases "cid = bytes_of ''XYZI''")
      case True
      with nm ns assms(1) have "ReadXyziChunk f3 vf cs chs = Inr (f4, vf')"
        by (cases "ReadXyziChunk f3 vf cs chs") (simp_all add: chunk_handler_def)
      then show ?thesis using assms(2) by (rule ReadXyziChunk_failbit)
    next
      case nx: False
      show ?thesis
      proof (cases "cid = bytes_of ''RGBA''")
        case True
        with nm ns nx assms(1) ReadRgbaChunk_failbit [OF assms(2), of vf cs chs] show ?thesis
          by (auto simp: chunk_handler_def)
      next
        case False
        with nm ns nx assms(1) assms(2) show ?thesis by (simp add: chunk_handler_def)
      qed
    qed
  qed
qed

lemma ReadChunk_failbit_all:
  "(\<forall>f vf f' vf'. failbit f \<longrightarrow> ReadChunk n f vf = Some (Inr (f', vf')) \<longrightarrow> failbit f') \<and>
   (\<forall>f vf cs chs f' vf'. failbit f \<longrightarrow> ReadMainChunk n f vf cs chs = Some (Inr (f', vf')) \<longrightarrow>
      failbit f') \<and>
   (\<forall>ep f vf f' vf'. failbit f \<longrightarrow> ReadMainChunk_loop n ep f vf = Some (Inr (f', vf')) \<longrightarrow>
      failbit f')"
proof (induction n)
  case 0
  show ?case by simp
next
  case (Suc n)
  have loop: "failbit f'"
    if "failbit f" and "ReadMainChunk_loop (Suc n) ep f vf = Some (Inr (f', vf'))"
    for ep f vf f' vf'
  proof (cases "tellg f < uint ep")
    case False
    with that show ?thesis by simp
  next
    case True
    show ?thesis
    proof (cases "ReadChunk n f vf")
      case None
      with that(2) True show ?thesis by simp
    next
      case (Some r1)
      show ?thesis
      proof (cases r1)
        case (Inl ex)
        with that(2) True Some show ?thesis by simp
      next
        case (Inr s)
        obtain f1 vf1 where s: "s = (f1, vf1)" by (cases s)
        from Suc.IH that(1) Some Inr s have "failbit f1" by blast
        moreover from that(2) True Some Inr s
        have "ReadMainChunk_loop n ep f1 vf1 = Some (Inr (f', vf'))" by simp
        ultimately show ?thesis using Suc.IH by blast
      qed
    qed
  qed
  have main: "failbit f'"
    if "failbit f" and "ReadMainChunk (Suc n) f vf cs chs = Some (Inr (f', vf'))"
    for f vf cs chs f' vf'
  proof -
    from that(1) have "failbit (seekg_cur f cs)" by simp
    moreover from that(2) have "ReadMainChunk_loop (Suc n)
        (word_of_int (tellg (seekg_cur f cs)) + chs) (seekg_cur f cs) vf = Some (Inr (f', vf'))"
      by (simp add: Let_def del: ReadMainChunk_loop.simps)
    ultimately show ?thesis by (rule loop)
  qed
  have chunk: "failbit f'"
    if fb: "failbit f" and c: "ReadChunk (Suc n) f vf = Some (Inr (f', vf'))" for f vf f' vf'
  proof -
    obtain cid cs chs f3 where h: "read_chunk_header f = (cid, cs, chs, f3)"
      by (cases "read_chunk_header f") auto
    have f3: "failbit f3" using read_chunk_header_failbit [OF fb] h by simp
    from c h obtain m f4 where m: "Suc n = Suc m"
      and r: "chunk_handler m cid f3 vf cs chs = Some (Inr (f4, vf'))"
      and f': "f' = seekg f4 (word_of_int (tellg f3) + cs + chs)"
      by (rule ReadChunk_Inr)
    from m r have r': "chunk_handler n cid f3 vf cs chs = Some (Inr (f4, vf'))" by simp
    have "failbit f4"
    proof (rule chunk_handler_failbit [OF r' f3])
      fix g vg
      assume "ReadMainChunk n f3 vf cs chs = Some (Inr (g, vg))"
      with Suc.IH f3 show "failbit g" by blast
    qed
    with f' show ?thesis by simp
  qed
  from loop main chunk show ?case by blast
qed

lemma ReadMainChunk_failbit:
  "failbit f \<Longrightarrow> ReadMainChunk n f vf cs chs = Some (Inr (f', vf')) \<Longrightarrow> failbit f'"
  using ReadChunk_failbit_all [of n] by blast


lemma ReadChunk_failbit:
  "failbit f \<Longrightarrow> ReadChunk n f vf = Some (Inr (f', vf')) \<Longrightarrow> failbit f'"
  using ReadChunk_failbit_all [of n] by blast

subsection \<open>Running the loader on a concrete input\<close>

text \<open>
  The loops count their fuel and their records down from numerals; \<open>run_defs\<close> are the
  equations that evaluate the loader on a given stream.
\<close>

lemma ReadXyziChunk_loop_unfold:
  assumes "0 < n"
  shows "ReadXyziChunk_loop n f dense voxels =
     (let (x, f1) = read_uint8 f; (y, f2) = read_uint8 f1;
          (z, f3) = read_uint8 f2; (c, f4) = read_uint8 f3;
          v = \<lparr>vox_x = x, vox_y = y, vox_z = z, vox_color = c\<rparr> in
      case voxel_assign dense (uint x) (uint y) (uint z) c of
        Inl e \<Rightarrow> Inl e
      | Inr dense' \<Rightarrow> ReadXyziChunk_loop (n - 1) f4 dense' (voxels @ [v]))"
proof (cases n)
  case 0
  with assms show ?thesis by simp
next
  case (Suc m)
  show ?thesis unfolding Suc diff_Suc_1 ReadXyziChunk_loop.simps ..
qed

lemma ReadChunk_unfold:
  assumes "0 < n"
  shows "ReadChunk n f vf =
     (let (chunk_id, contents_size, children_size, f3) = read_chunk_header f in
      case chunk_handler (n - 1) chunk_id f3 vf contents_size children_size of
        None \<Rightarrow> None
      | Some (Inl ex) \<Rightarrow> Some (Inl ex)
      | Some (Inr (f4, vf')) \<Rightarrow>
          Some (Inr (seekg f4 (word_of_int (tellg f3) + contents_size + children_size), vf')))"
proof (cases n)
  case 0
  with assms show ?thesis by simp
next
  case (Suc m)
  obtain cid cs chs f3 where h: "read_chunk_header f = (cid, cs, chs, f3)"
    by (cases "read_chunk_header f") auto
  show ?thesis unfolding Suc diff_Suc_1 ReadChunk_Suc [OF h] h Let_def prod.case ..
qed

lemma ReadMainChunk_loop_unfold:
  assumes "0 < n"
  shows "ReadMainChunk_loop n end_pos f vf =
     (if tellg f < uint end_pos then
        (case ReadChunk (n - 1) f vf of
           None \<Rightarrow> None
         | Some (Inl ex) \<Rightarrow> Some (Inl ex)
         | Some (Inr (f', vf')) \<Rightarrow> ReadMainChunk_loop (n - 1) end_pos f' vf')
      else Some (Inr (f, vf)))"
proof (cases n)
  case 0
  with assms show ?thesis by simp
next
  case (Suc m)
  show ?thesis unfolding Suc diff_Suc_1 ReadMainChunk_loop.simps ..
qed

lemmas run_defs = Load_def ifstream_open_def ReadId_def ifstream_read_def garbage_def
  le_i32read_def le_u32read_def read_chunk_header_def bytes_of_def tellg_def seekg_def seekg_cur_def
  ReadSizeChunk_def ReadXyziChunk_def read_uint8_def read_byte_def VoxDenseModel_new_def
  VoxSparseModel_new_def voxel_assign_def voxel_index_def voxel_def is_hidden_def and_also_def
  nonzero_def VoxFile_new_def ReadXyziChunk_loop_unfold ReadChunk_unfold ReadMainChunk_loop_unfold
  chunk_handler_def Let_def env_of_def stream_at_def

lemma xyzi_records_unfold:
  assumes "0 < n"
  shows "xyzi_records n f =
     (let (x, f1) = read_uint8 f; (y, f2) = read_uint8 f1;
          (z, f3) = read_uint8 f2; (c, f4) = read_uint8 f3 in
      \<lparr>vox_x = x, vox_y = y, vox_z = z, vox_color = c\<rparr> # xyzi_records (n - 1) f4)"
proof (cases n)
  case 0
  with assms show ?thesis by simp
next
  case (Suc m)
  show ?thesis unfolding Suc diff_Suc_1 xyzi_records.simps ..
qed

lemma replicate_unfold: "0 < n \<Longrightarrow> replicate n x = x # replicate (n - 1) x"
  by (cases n) simp_all

subsection \<open>Cells and coordinates\<close>




lemma unat_ucast_u8: "unat (ucast w :: u32) = unat w" for w :: u8
proof -
  have "unat w < 2 ^ 8" using unsigned_less [of w] by simp
  then have "unat w < 2 ^ 32" by simp
  then show ?thesis by (simp add: unsigned_ucast_eq take_bit_nat_eq_self)
qed

lemma unat_offset:
  "unat (a + b * c + d * c * e :: u32) =
     (unat a + unat b * unat c + unat d * unat c * unat e) mod 2 ^ 32"
  by (simp add: unat_word_ariths mod_simps)

lemma cell_of_mod:
  "cell_of sz v =
     (unat (vox_x v) + unat (vox_y v) * unat (vec_x sz) +
        unat (vox_z v) * unat (vec_x sz) * unat (vec_y sz)) mod 2 ^ 32"
  unfolding cell_of_def voxel_index_def unat_offset
  by (simp add: unat_ucast_u8)

lemma cell_count_mod:
  "cell_count sz = (unat (vec_x sz) * unat (vec_y sz) * unat (vec_z sz)) mod 2 ^ 32"
  unfolding cell_count_def by (simp add: unat_word_ariths mod_simps)



subsection \<open>Replaying a sparse model\<close>

lemma length_written_grid [simp]: "length (written_grid offset cells vs) = cells"
proof -
  have "length (fold (\<lambda>v g. g[offset v := vox_color v]) vs g) = length g" for g :: "u8 list"
    by (induction vs arbitrary: g) simp_all
  then show ?thesis by (simp add: written_grid_def)
qed

lemma written_grid_cong:
  assumes "\<And>v. v \<in> set vs \<Longrightarrow> offset v = offset' v"
  shows "written_grid offset cells vs = written_grid offset' cells vs"
proof -
  have "fold (\<lambda>v g. g[offset v := vox_color v]) vs g =
        fold (\<lambda>v g. g[offset' v := vox_color v]) vs g" for g :: "u8 list"
    using assms by (induction vs arbitrary: g) simp_all
  then show ?thesis by (simp add: written_grid_def)
qed

lemma replayed_grid32_decoded:
  "replayed_grid32 ((VoxSparseModel_new sz)\<lparr>sm_voxels := recs\<rparr>) = dm_voxels (decoded_grid sz recs)"
proof -
  have "(\<lambda>v. plain_offset sz v mod 2 ^ 32) = cell_of sz"
    by (rule ext) (simp add: cell_of_mod plain_offset_def)
  moreover have "plain_cells sz mod 2 ^ 32 = cell_count sz"
    by (simp add: cell_count_mod plain_cells_def)
  ultimately show ?thesis
    by (simp add: replayed_grid32_def written_grid_def decoded_grid_def write_cells_def
        VoxSparseModel_new_def)
qed

lemma replayed_grid_fits32:
  assumes "fits32 sparse"
  shows "replayed_grid sparse = replayed_grid32 sparse"
proof -
  from assms have c: "plain_cells (sm_size sparse) mod 2 ^ 32 = plain_cells (sm_size sparse)"
    by (simp add: fits32_def)
  have o: "plain_offset (sm_size sparse) v = plain_offset (sm_size sparse) v mod 2 ^ 32"
    if "v \<in> set (sm_voxels sparse)" for v
  proof -
    from assms that have "plain_offset (sm_size sparse) v < 2 ^ 32"
      unfolding fits32_def list_all_iff by blast
    then show ?thesis by (rule mod_less [symmetric])
  qed
  show ?thesis
    unfolding replayed_grid_def replayed_grid32_def c
    using o by (rule written_grid_cong)
qed

subsection \<open>The models a load appends\<close>


lemma grows_trans:
  assumes "grows a b" and "grows b c"
  shows "grows a c"
proof -
  from assms(1) obtain ms1 where 1: "list_all (paired (remove_hidden_voxels a)) ms1"
    "dense_models b = dense_models a @ (if load_dense a then map fst ms1 else [])"
    "sparse_models b = sparse_models a @ (if load_sparse a then map snd ms1 else [])"
    and f1: "load_dense b = load_dense a" "load_sparse b = load_sparse a"
      "remove_hidden_voxels b = remove_hidden_voxels a"
    unfolding grows_def by blast
  from assms(2) obtain ms2 where 2: "list_all (paired (remove_hidden_voxels b)) ms2"
    "dense_models c = dense_models b @ (if load_dense b then map fst ms2 else [])"
    "sparse_models c = sparse_models b @ (if load_sparse b then map snd ms2 else [])"
    and f2: "load_dense c = load_dense b" "load_sparse c = load_sparse b"
      "remove_hidden_voxels c = remove_hidden_voxels b"
    unfolding grows_def by blast
  have "list_all (paired (remove_hidden_voxels a)) (ms1 @ ms2)"
    using 1(1) 2(1) f1 by simp
  moreover have "dense_models c = dense_models a @ (if load_dense a then map fst (ms1 @ ms2) else [])"
    using 1(2) 2(2) f1 by simp
  moreover have "sparse_models c = sparse_models a @ (if load_sparse a then map snd (ms1 @ ms2) else [])"
    using 1(3) 2(3) f1 by simp
  ultimately have "\<exists>ms. list_all (paired (remove_hidden_voxels a)) ms \<and>
         dense_models c = dense_models a @ (if load_dense a then map fst ms else []) \<and>
         sparse_models c = sparse_models a @ (if load_sparse a then map snd ms else [])"
    by (intro exI [of _ "ms1 @ ms2"] conjI)
  moreover from f1 f2 have "load_dense c = load_dense a" "load_sparse c = load_sparse a"
    "remove_hidden_voxels c = remove_hidden_voxels a" by simp_all
  ultimately show ?thesis unfolding grows_def by (intro conjI)
qed

lemma grows_same_models:
  assumes "load_dense vf' = load_dense vf" "load_sparse vf' = load_sparse vf"
    "remove_hidden_voxels vf' = remove_hidden_voxels vf"
    "dense_models vf' = dense_models vf" "sparse_models vf' = sparse_models vf"
  shows "grows vf vf'"
proof -
  have "list_all (paired (remove_hidden_voxels vf)) [] \<and>
      dense_models vf' = dense_models vf @ (if load_dense vf then map fst [] else []) \<and>
      sparse_models vf' = sparse_models vf @ (if load_sparse vf then map snd [] else [])"
    using assms(4,5) by simp
  then have "\<exists>ms. list_all (paired (remove_hidden_voxels vf)) ms \<and>
      dense_models vf' = dense_models vf @ (if load_dense vf then map fst ms else []) \<and>
      sparse_models vf' = sparse_models vf @ (if load_sparse vf then map snd ms else [])"
    by (rule exI)
  with assms(1-3) show ?thesis unfolding grows_def by (intro conjI)
qed

lemma grows_refl: "grows vf vf"
  by (rule grows_same_models) simp_all

lemma grows_ReadSizeChunk: "grows vf (snd (ReadSizeChunk f vf cs chs))"
  by (rule grows_same_models) (simp_all add: ReadSizeChunk_def split_beta)

lemma ReadRgbaChunk_step_frame:
  "\<exists>p. snd (ReadRgbaChunk_step i (f, vf)) = vf\<lparr>palette := p\<rparr>"
  by (simp add: ReadRgbaChunk_step_def split_beta) blast

lemma fold_ReadRgbaChunk_step_frame:
  "\<exists>p. snd (fold ReadRgbaChunk_step is (f, vf)) = vf\<lparr>palette := p\<rparr>"
proof (induction "is" arbitrary: f vf)
  case Nil
  have "vf = vf\<lparr>palette := palette vf\<rparr>" by simp
  then show ?case by (simp only: fold.simps id_apply snd_conv) blast
next
  case (Cons i "is")
  obtain f1 vf1 where s: "ReadRgbaChunk_step i (f, vf) = (f1, vf1)"
    by (cases "ReadRgbaChunk_step i (f, vf)")
  from ReadRgbaChunk_step_frame [of i f vf] s obtain p where p: "vf1 = vf\<lparr>palette := p\<rparr>"
    by auto
  from Cons.IH [of f1 vf1] obtain q where
    "snd (fold ReadRgbaChunk_step is (f1, vf1)) = vf1\<lparr>palette := q\<rparr>" ..
  with p s have "snd (fold ReadRgbaChunk_step (i # is) (f, vf)) = vf\<lparr>palette := q\<rparr>"
    by simp
  then show ?case ..
qed

lemma ReadRgbaChunk_frame:
  "\<exists>p. snd (ReadRgbaChunk f vf cs chs) = vf\<lparr>palette := p\<rparr>"
  unfolding ReadRgbaChunk_def by (rule fold_ReadRgbaChunk_step_frame)

lemma grows_ReadRgbaChunk: "grows vf (snd (ReadRgbaChunk f vf cs chs))"
proof -
  from ReadRgbaChunk_frame [of f vf cs chs] obtain p where
    "snd (ReadRgbaChunk f vf cs chs) = vf\<lparr>palette := p\<rparr>" ..
  then show ?thesis by (intro grows_same_models) simp_all
qed

lemma grows_ReadXyziChunk:
  assumes "ReadXyziChunk f vf cs chs = Inr (f', vf')"
  shows "grows vf vf'"
proof -
  obtain n f1 where r: "le_u32read f = (n, f1)" by (cases "le_u32read f")
  let ?sz = "cur_size vf"
  let ?recs = "xyzi_records (unat n) f1"
  from assms obtain dense2 sparse2 where
    in_grid: "\<forall>v \<in> set ?recs. cell_of ?sz v < cell_count ?sz"
    and models: "(if remove_hidden_voxels vf
       then RemoveHiddenVoxels (decoded_grid ?sz ?recs) (VoxSparseModel_new ?sz) ?recs
       else Inr (decoded_grid ?sz ?recs, (VoxSparseModel_new ?sz)\<lparr>sm_voxels := ?recs\<rparr>)) =
      Inr (dense2, sparse2)"
    and vf': "vf' = vf\<lparr>dense_models :=
                       (if load_dense vf then dense_models vf @ [dense2] else dense_models vf),
                     sparse_models :=
                       (if load_sparse vf then sparse_models vf @ [sparse2]
                        else sparse_models vf)\<rparr>"
    unfolding ReadXyziChunk_eq [OF r] Let_def
    by (auto split: if_splits sum.splits)
  have "paired (remove_hidden_voxels vf) (dense2, sparse2)"
  proof (cases "remove_hidden_voxels vf")
    case True
    with models RemoveHiddenVoxels_result
      [of "decoded_grid ?sz ?recs" "VoxSparseModel_new ?sz" ?recs dense2 sparse2]
    show ?thesis
      by (simp add: paired_def decoded_grid_def VoxSparseModel_new_def cell_count_mod
          plain_cells_def)
  next
    case False
    with models have d: "dense2 = decoded_grid ?sz ?recs"
      and s: "sparse2 = (VoxSparseModel_new ?sz)\<lparr>sm_voxels := ?recs\<rparr>"
      by simp_all
    have "dm_voxels dense2 = replayed_grid32 sparse2"
      unfolding d s by (rule replayed_grid32_decoded [symmetric])
    moreover have "length (dm_voxels dense2) = plain_cells (sm_size sparse2) mod 2 ^ 32"
      unfolding d s
      by (simp add: decoded_grid_def VoxSparseModel_new_def cell_count_mod plain_cells_def)
    moreover have "sm_palette sparse2 = kDefaultPalette" "dm_palette dense2 = None"
      "dm_size dense2 = sm_size sparse2"
      unfolding d s by (simp_all add: decoded_grid_def VoxSparseModel_new_def)
    ultimately show ?thesis using False by (simp add: paired_def)
  qed
  then have "list_all (paired (remove_hidden_voxels vf)) [(dense2, sparse2)]" by simp
  moreover have "dense_models vf' =
      dense_models vf @ (if load_dense vf then map fst [(dense2, sparse2)] else [])"
    "sparse_models vf' =
      sparse_models vf @ (if load_sparse vf then map snd [(dense2, sparse2)] else [])"
    using vf' by simp_all
  moreover have "load_dense vf' = load_dense vf" "load_sparse vf' = load_sparse vf"
    "remove_hidden_voxels vf' = remove_hidden_voxels vf"
    using vf' by simp_all
  ultimately show ?thesis unfolding grows_def by blast
qed

lemma ReadXyziChunk_Inl:
  "ReadXyziChunk f vf cs chs = Inl e \<Longrightarrow> e = out_of_range"
  using ReadXyziChunk_raises [of f vf cs chs] by simp

lemma ReadChunk_grows:
  assumes "ReadChunk n f vf = Some r"
  shows "grows vf (outcome_state r) \<and> outcome_raises (\<lambda>e. e = out_of_range) r"
proof -
  have "(\<forall>f vf r. ReadChunk n f vf = Some r \<longrightarrow>
           grows vf (outcome_state r) \<and> outcome_raises (\<lambda>e. e = out_of_range) r) \<and>
        (\<forall>f vf cs chs r. ReadMainChunk n f vf cs chs = Some r \<longrightarrow>
           grows vf (outcome_state r) \<and> outcome_raises (\<lambda>e. e = out_of_range) r) \<and>
        (\<forall>ep f vf r. ReadMainChunk_loop n ep f vf = Some r \<longrightarrow>
           grows vf (outcome_state r) \<and> outcome_raises (\<lambda>e. e = out_of_range) r)"
  proof (rule ReadChunk_invariant)
    show "grows vf vf" for vf by (rule grows_refl)
    show "grows a c" if "grows a b" "grows b c" for a b c using that by (rule grows_trans)
    show "grows vf (snd (ReadSizeChunk f vf cs chs))" for f vf cs chs
      by (rule grows_ReadSizeChunk)
    show "grows vf (snd (ReadRgbaChunk f vf cs chs))" for f vf cs chs
      by (rule grows_ReadRgbaChunk)
    show "grows vf vf'" if "ReadXyziChunk f vf cs chs = Inr (f', vf')" for f vf cs chs f' vf'
      using that by (rule grows_ReadXyziChunk)
    show "e = out_of_range" if "ReadXyziChunk f vf cs chs = Inl e" for f vf cs chs e
      using that by (rule ReadXyziChunk_Inl)
  qed
  with assms show ?thesis by blast
qed

subsection \<open>Load\<close>

lemma ReadId_VOX:
  "ReadId f ''VOX '' =
     (if fst (ifstream_read f 4) = bytes_of ''VOX '' then Inr (snd (ifstream_read f 4))
      else Inl VoxException)"
proof -
  obtain fid f1 where r: "ifstream_read f 4 = (fid, f1)" by (cases "ifstream_read f 4")
  have len: "length fid = 4"
    using r by (auto simp: ifstream_read_def garbage_def Let_def split: if_splits)
  then obtain a b c d where fid: "fid = [a, b, c, d]"
    by (cases fid; cases "tl fid"; cases "tl (tl fid)"; cases "tl (tl (tl fid))") auto
  show ?thesis
    by (auto simp: ReadId_def r fid bytes_of_def)
qed

lemma Load_outcome:
  assumes "Load fuel e path vf = Some r"
  shows "case r of
           Inl (ex, vf') \<Rightarrow>
             grows (vf\<lparr>dense_models := []\<rparr>) vf' \<and> (ex = VoxException \<or> ex = out_of_range) \<and>
             (ex = VoxException \<longrightarrow> vf' = vf\<lparr>dense_models := []\<rparr>)
         | Inr vf' \<Rightarrow>
             (\<exists>vf2. grows (vf\<lparr>dense_models := []\<rparr>) vf2 \<and>
                vf' = vf2\<lparr>dense_models :=
                        map (\<lambda>model. model\<lparr>dm_palette := Some (palette vf2)\<rparr>) (dense_models vf2)\<rparr>)"
proof (cases "ReadId (ifstream_open e path) ''VOX ''")
  case (Inl ex)
  then have "ex = VoxException" by (simp add: ReadId_VOX split: if_splits)
  with Inl assms show ?thesis by (auto simp: Load_def grows_refl)
next
  case (Inr f1)
  let ?f2 = "snd (le_i32read f1)"
  let ?vf1 = "vf\<lparr>dense_models := []\<rparr>"
  from assms Inr have c: "(case ReadChunk fuel ?f2 ?vf1 of
             None \<Rightarrow> None
           | Some (Inl ex) \<Rightarrow> Some (Inl ex)
           | Some (Inr (f3, vf2)) \<Rightarrow>
               Some (Inr (vf2\<lparr>dense_models :=
                            map (\<lambda>model. model\<lparr>dm_palette := Some (palette vf2)\<rparr>)
                                (dense_models vf2)\<rparr>))) = Some r"
    by (simp add: Load_def split_beta)
  then obtain r1 where r1: "ReadChunk fuel ?f2 ?vf1 = Some r1"
    by (cases "ReadChunk fuel ?f2 ?vf1") auto
  from ReadChunk_grows [OF r1]
  have g: "grows ?vf1 (outcome_state r1)" and ex: "outcome_raises (\<lambda>e. e = out_of_range) r1"
    by simp_all
  show ?thesis
  proof (cases r1)
    case (Inl x)
    obtain ex1 vf1 where x: "x = (ex1, vf1)" by (cases x)
    from c r1 Inl x have "r = Inl (ex1, vf1)" by simp
    moreover from g ex Inl x have "grows ?vf1 vf1" "ex1 = out_of_range"
      by (simp_all add: outcome_state_def outcome_raises_def)
    ultimately show ?thesis by simp
  next
    case (Inr s)
    obtain f3 vf2 where s: "s = (f3, vf2)" by (cases s)
    from c r1 Inr s have "r = Inr (vf2\<lparr>dense_models :=
        map (\<lambda>model. model\<lparr>dm_palette := Some (palette vf2)\<rparr>) (dense_models vf2)\<rparr>)"
      by simp
    moreover from g Inr s have "grows ?vf1 vf2" by (simp add: outcome_state_def)
    ultimately show ?thesis by auto
  qed
qed

subsection \<open>An RGBA chunk on a good stream\<close>

lemma read_byte_good:
  assumes "\<not> failbit f" and "gpos f < length (content f)"
  shows "read_byte f = (sint (content f ! gpos f), f\<lparr>gpos := gpos f + 1\<rparr>)"
proof -
  from assms(2) have "1 \<le> length (content f) - gpos f" by arith
  with assms show ?thesis
    by (simp add: read_byte_def ifstream_read_def Let_def take_Suc_conv_app_nth hd_drop_conv_nth
        take_Suc)
qed

lemma ReadRgbaChunk_step_good:
  assumes "\<not> failbit f" and "gpos f + 4 \<le> length (content f)"
  shows "ReadRgbaChunk_step i (f, vf) =
     (f\<lparr>gpos := gpos f + 4\<rparr>, vf\<lparr>palette := (palette vf)[i := color_at (content f) (gpos f)]\<rparr>)"
proof -
  define f1 where "f1 = f\<lparr>gpos := gpos f + 1\<rparr>"
  define f2 where "f2 = f\<lparr>gpos := gpos f + 2\<rparr>"
  define f3 where "f3 = f\<lparr>gpos := gpos f + 3\<rparr>"
  define f4 where "f4 = f\<lparr>gpos := gpos f + 4\<rparr>"
  have 1: "read_byte f = (sint (content f ! gpos f), f1)"
    using assms read_byte_good [of f] by (simp add: f1_def)
  have 2: "read_byte f1 = (sint (content f ! (gpos f + 1)), f2)"
    using assms read_byte_good [of f1] by (simp add: f1_def f2_def)
  have 3: "read_byte f2 = (sint (content f ! (gpos f + 2)), f3)"
    using assms read_byte_good [of f2] by (simp add: f2_def f3_def)
  have 4: "read_byte f3 = (sint (content f ! (gpos f + 3)), f4)"
    using assms read_byte_good [of f3] by (simp add: f3_def f4_def)
  have "ReadRgbaChunk_step i (f, vf) =
     (f4, vf\<lparr>palette := (palette vf)[i := color_at (content f) (gpos f)]\<rparr>)"
    unfolding ReadRgbaChunk_step_def Let_def prod.case 1 2 3 4 color_at_def
    by simp
  then show ?thesis by (simp add: f4_def)
qed

lemma fold_ReadRgbaChunk_step_good:
  assumes "\<not> failbit f" and "gpos f + 4 * k \<le> length (content f)"
  shows "fold ReadRgbaChunk_step [1..<Suc k] (f, vf) =
     (f\<lparr>gpos := gpos f + 4 * k\<rparr>,
      vf\<lparr>palette := fold (\<lambda>i p. p[i := color_at (content f) (gpos f + 4 * (i - 1))])
                          [1..<Suc k] (palette vf)\<rparr>)"
  using assms(2)
proof (induction k)
  case 0
  show ?case by simp
next
  case (Suc k)
  then have IH: "fold ReadRgbaChunk_step [1..<Suc k] (f, vf) =
     (f\<lparr>gpos := gpos f + 4 * k\<rparr>,
      vf\<lparr>palette := fold (\<lambda>i p. p[i := color_at (content f) (gpos f + 4 * (i - 1))])
                          [1..<Suc k] (palette vf)\<rparr>)"
    by simp
  have up: "[1..<Suc (Suc k)] = [1..<Suc k] @ [Suc k]" by simp
  let ?g = "f\<lparr>gpos := gpos f + 4 * k\<rparr>"
  have step: "ReadRgbaChunk_step (Suc k) (?g, w) =
      (?g\<lparr>gpos := gpos ?g + 4\<rparr>,
       w\<lparr>palette := (palette w)[Suc k := color_at (content ?g) (gpos ?g)]\<rparr>)" for w
    using assms(1) Suc.prems by (intro ReadRgbaChunk_step_good) simp_all
  show ?case
    unfolding up fold_append comp_apply IH
    by (simp add: step)
qed

lemma ReadRgbaChunk_good:
  assumes "\<not> failbit f" and "gpos f + 1020 \<le> length (content f)"
  shows "ReadRgbaChunk f vf contents_size children_size =
     (f\<lparr>gpos := gpos f + 1020\<rparr>,
      vf\<lparr>palette := rgba_palette (content f) (gpos f) (palette vf)\<rparr>)"
proof -
  have "[1..<256] = [1..<Suc 255]" by simp
  with fold_ReadRgbaChunk_step_good [OF assms(1), of 255 vf] assms(2)
  show ?thesis
    by (simp add: ReadRgbaChunk_def rgba_palette_def del: upt_Suc)
qed

lemma fold_update_nth:
  assumes "j \<in> set js" and "distinct js" and "j < length p"
  shows "fold (\<lambda>i p. p[i := c i]) js p ! j = c j"
  using assms
proof (induction js arbitrary: p)
  case Nil
  then show ?case by simp
next
  case (Cons i js)
  show ?case
  proof (cases "j = i")
    case True
    with Cons.prems have "i \<notin> set js" by simp
    then have "fold (\<lambda>i p. p[i := c i]) js q ! i = q ! i" for q
      by (induction js arbitrary: q) auto
    with True Cons.prems show ?thesis by simp
  next
    case False
    with Cons.prems Cons.IH [of "p[i := c i]"] show ?thesis by simp
  qed
qed

lemma rgba_palette_first:
  assumes "1 < length pal"
  shows "rgba_palette bs pos pal ! Suc 0 = color_at bs pos"
proof -
  have "fold (\<lambda>i p. p[i := color_at bs (pos + 4 * (i - 1))]) [1..<256] pal ! 1 =
      color_at bs (pos + 4 * (1 - 1))"
    using assms by (intro fold_update_nth) simp_all
  then show ?thesis by (simp add: rgba_palette_def)
qed

lemma length_kDefaultPalette: "length kDefaultPalette = 256"
  by (simp add: kDefaultPalette_def)

lemma kDefaultPalette_first:
  "kDefaultPalette ! Suc 0 = \<lparr>col_r = 0xcc, col_g = 0xff, col_b = 0xff, col_a = 0xff\<rparr>"
  by (simp add: kDefaultPalette_def Color_of_u32_def)

subsection \<open>Fuel\<close>

text \<open>A run that has returned within some fuel returns the same with more.\<close>

lemma chunk_handler_fuel:
  assumes "chunk_handler n cid f3 vf cs chs = Some r"
    and "\<And>r. ReadMainChunk n f3 vf cs chs = Some r \<Longrightarrow> ReadMainChunk (Suc n) f3 vf cs chs = Some r"
  shows "chunk_handler (Suc n) cid f3 vf cs chs = Some r"
proof (cases "cid = bytes_of ''MAIN''")
  case True
  with assms show ?thesis by (simp add: chunk_handler_def)
next
  case False
  with assms(1) show ?thesis by (simp add: chunk_handler_def)
qed

lemma fuel_Suc:
  "(\<forall>f vf r. ReadChunk n f vf = Some r \<longrightarrow> ReadChunk (Suc n) f vf = Some r) \<and>
   (\<forall>f vf cs chs r. ReadMainChunk n f vf cs chs = Some r \<longrightarrow>
      ReadMainChunk (Suc n) f vf cs chs = Some r) \<and>
   (\<forall>ep f vf r. ReadMainChunk_loop n ep f vf = Some r \<longrightarrow>
      ReadMainChunk_loop (Suc n) ep f vf = Some r)"
proof (induction n)
  case 0
  show ?case by simp
next
  case (Suc n)
  have loop: "ReadMainChunk_loop (Suc (Suc n)) ep f vf = Some r"
    if "ReadMainChunk_loop (Suc n) ep f vf = Some r" for ep f vf r
  proof (cases "tellg f < uint ep")
    case False
    with that show ?thesis by simp
  next
    case True
    show ?thesis
    proof (cases "ReadChunk n f vf")
      case None
      with that True show ?thesis by simp
    next
      case (Some r1)
      with Suc.IH have s: "ReadChunk (Suc n) f vf = Some r1" by blast
      show ?thesis
      proof (cases r1)
        case (Inl ex)
        from that True Some Inl have "r = Inl ex" by simp
        with True s Inl show ?thesis
          unfolding ReadMainChunk_loop.simps(2) [of "Suc n"] by simp
      next
        case (Inr p)
        obtain f1 vf1 where p: "p = (f1, vf1)" by (cases p)
        from that True Some Inr p have "ReadMainChunk_loop n ep f1 vf1 = Some r" by simp
        with Suc.IH have "ReadMainChunk_loop (Suc n) ep f1 vf1 = Some r" by blast
        with True s Inr p show ?thesis
          unfolding ReadMainChunk_loop.simps(2) [of "Suc n"] by simp
      qed
    qed
  qed
  have main: "ReadMainChunk (Suc (Suc n)) f vf cs chs = Some r"
    if "ReadMainChunk (Suc n) f vf cs chs = Some r" for f vf cs chs r
    using that loop unfolding ReadMainChunk.simps Let_def by blast
  have chunk: "ReadChunk (Suc (Suc n)) f vf = Some r"
    if c: "ReadChunk (Suc n) f vf = Some r" for f vf r
  proof -
    obtain cid cs chs f3 where h: "read_chunk_header f = (cid, cs, chs, f3)"
      by (cases "read_chunk_header f") auto
    from c obtain r0 where r0: "chunk_handler n cid f3 vf cs chs = Some r0"
      unfolding ReadChunk_Suc [OF h] by (cases "chunk_handler n cid f3 vf cs chs") auto
    have "chunk_handler (Suc n) cid f3 vf cs chs = Some r0"
      using r0 Suc.IH by (intro chunk_handler_fuel) blast+
    with c r0 show ?thesis
      unfolding ReadChunk_Suc [OF h] by simp
  qed
  from loop main chunk show ?case by blast
qed

lemma ReadChunk_fuel_mono:
  assumes "ReadChunk n f vf = Some r" and "n \<le> m"
  shows "ReadChunk m f vf = Some r"
  using assms(2,1)
proof (induction m rule: dec_induct)
  case base
  then show ?case .
next
  case (step k)
  with fuel_Suc [of k] show ?case by blast
qed

lemma Load_fuel_mono:
  assumes "Load n e path vf = Some r" and "n \<le> m"
  shows "Load m e path vf = Some r"
proof (cases "ReadId (ifstream_open e path) ''VOX ''")
  case (Inl ex)
  with assms(1) show ?thesis by (simp add: Load_def)
next
  case (Inr f1)
  let ?c = "\<lambda>k. ReadChunk k (snd (le_i32read f1)) (vf\<lparr>dense_models := []\<rparr>)"
  from assms(1) Inr obtain r1 where r1: "?c n = Some r1"
    by (cases "?c n") (simp_all add: Load_def split_beta)
  from r1 assms(2) have "?c m = Some r1" by (rule ReadChunk_fuel_mono)
  with assms(1) Inr r1 show ?thesis by (simp add: Load_def split_beta)
qed


subsection \<open>A load that does not return\<close>

text \<open>
  Once the stream has failed inside a \<open>MAIN\<close> chunk, \<open>tellg\<close> is \<open>-1\<close>, below
  every \<open>end_pos\<close>, and the loop of \<open>ReadMainChunk\<close> goes on reading chunks that are no
  chunks. With zeroes in the uninitialised buffers every such chunk has the empty tag,
  and the loop has not returned within any fuel.
\<close>

lemma failed_header:
  assumes "failbit f" and "\<forall>k. indet f k = 0"
  shows "\<exists>f3. read_chunk_header f = ([], 0, 0, f3) \<and> failbit f3 \<and> (\<forall>k. indet f3 k = 0)"
  using assms
  by (simp add: read_chunk_header_def le_u32read_def ifstream_read_def garbage_def upt_rec)

lemma failed_stream_never_returns:
  assumes "failbit f" and "\<forall>k. indet f k = 0"
  shows "ReadMainChunk_loop n ep f vf = None"
  using assms
proof (induction n arbitrary: f)
  case 0
  show ?case by simp
next
  case (Suc n)
  have "tellg f = - 1"
    using Suc.prems(1) by (simp add: tellg_def)
  moreover have "0 \<le> uint ep" by simp
  ultimately have lt: "tellg f < uint ep" by linarith
  show ?case
  proof (cases n)
    case 0
    with lt show ?thesis by simp
  next
    case (Suc m)
    from failed_header [OF Suc.prems] obtain f3 where
      h: "read_chunk_header f = ([], 0, 0, f3)" and f3: "failbit f3" "\<forall>k. indet f3 k = 0"
      by blast
    have "chunk_handler m [] f3 vf 0 0 = Some (Inr (f3, vf))"
      by (simp add: chunk_handler_def bytes_of_def)
    with f3(1) have "ReadChunk n f vf = Some (Inr (f3, vf))"
      unfolding Suc ReadChunk_Suc [OF h] by (simp add: seekg_def)
    with lt Suc.IH [OF f3] show ?thesis by simp
  qed
qed

lemma Load_cut_in_main_never_returns:
  "Load fuel (env_of file_cut_in_main) ''model.vox'' (VoxFile_new True True True) = None"
proof -
  let ?vf = "(VoxFile_new True True True)\<lparr>dense_models := []\<rparr>"
  let ?f = "stream_at file_cut_in_main"
  have id: "ReadId (ifstream_open (env_of file_cut_in_main) ''model.vox'') ''VOX '' = Inr (?f 4)"
    by (simp add: run_defs file_cut_in_main_def)
  have ver: "snd (le_i32read (?f 4)) = ?f 8"
    by (simp add: run_defs file_cut_in_main_def)
  have main_header: "read_chunk_header (?f 8) = (bytes_of ''MAIN'', 0, 44, ?f 20)"
    by (simp add: run_defs file_cut_in_main_def)
  have size_header: "read_chunk_header (?f 20) = (bytes_of ''SIZE'', 12, 0, ?f 32)"
    by (simp add: run_defs file_cut_in_main_def)
  obtain g w where size: "ReadSizeChunk (?f 32) ?vf 12 0 = (g, w)"
    and g: "failbit g" "\<forall>k. indet g k = 0"
    by (simp add: run_defs file_cut_in_main_def)
  have child: "ReadChunk (Suc k) (?f 20) ?vf = Some (Inr (g, w))" for k
    unfolding ReadChunk_Suc [OF size_header]
    using g(1) by (simp add: chunk_handler_def bytes_of_def size seekg_def)
  have loop: "ReadMainChunk_loop n 64 (?f 20) ?vf = None" for n
  proof (cases n)
    case 0
    then show ?thesis by simp
  next
    case (Suc m)
    show ?thesis
    proof (cases m)
      case 0
      with \<open>n = Suc m\<close> show ?thesis by (simp add: tellg_def stream_at_def)
    next
      case (Suc k)
      with \<open>n = Suc m\<close> child [of k] failed_stream_never_returns [OF g, of m 64 w]
      show ?thesis by (simp add: tellg_def stream_at_def)
    qed
  qed
  have "ReadChunk fuel (?f 8) ?vf = None"
  proof (cases fuel)
    case 0
    then show ?thesis by simp
  next
    case (Suc n)
    have "chunk_handler n (bytes_of ''MAIN'') (?f 20) ?vf 0 44 = None"
      using loop [of n]
      by (simp add: chunk_handler_def seekg_cur_def tellg_def stream_at_def)
    then show ?thesis
      unfolding Suc ReadChunk_Suc [OF main_header] by simp
  qed
  then show ?thesis
    by (simp add: Load_def id split_beta ver)
qed

subsection \<open>The documented scenarios\<close>

text \<open>
  With culling on, the solid 2 x 2 x 2 cube keeps its eight voxels and every cell; the
  solid 3 x 3 x 3 cube keeps 26 voxels and loses the cell of its centre; the single
  voxel of a 1 x 1 x 1 model is kept.
\<close>

lemma Load_cube2:
  "\<exists>vf'. Load 5 (env_of file_cube2) ''model.vox'' (VoxFile_new True True True) = Some (Inr vf') \<and>
     map dm_voxels (dense_models vf') = [replicate 8 5] \<and>
     map (\<lambda>sparse. length (sm_voxels sparse)) (sparse_models vf') = [8]"
  by (simp add: run_defs replicate_unfold file_cube2_def solid_box_def record_bytes_def)

lemma Load_cube3:
  "\<exists>vf'. Load 5 (env_of file_cube3) ''model.vox'' (VoxFile_new True True True) = Some (Inr vf') \<and>
     map dm_voxels (dense_models vf') = [(replicate 27 7)[13 := 0]] \<and>
     map (\<lambda>sparse. length (sm_voxels sparse)) (sparse_models vf') = [26]"
  by (simp add: run_defs replicate_unfold file_cube3_def solid_box_def record_bytes_def)

lemma Load_single_voxel:
  "\<exists>vf'. Load 5 (env_of file_a) ''model.vox'' (VoxFile_new True True True) = Some (Inr vf') \<and>
     map dm_voxels (dense_models vf') = [[5]] \<and>
     map (\<lambda>sparse. length (sm_voxels sparse)) (sparse_models vf') = [1]"
  by (simp add: run_defs replicate_unfold file_a_def)


subsection \<open>What RemoveHiddenVoxels removes\<close>

lemma and_also_True: "and_also p q = Inr True \<longleftrightarrow> p = Inr True \<and> q = Inr True"
  by (cases p) (auto simp: and_also_def)

lemma nonzero_True: "nonzero r = Inr True \<longleftrightarrow> (\<exists>c. r = Inr c \<and> c \<noteq> 0)"
  by (cases r) (auto simp: nonzero_def)

lemma fades_refl: "fades dense dense"
  by (simp add: fades_def)

lemma fades_cell:
  assumes "fades dense dense'" and "i < length (dm_voxels dense)"
  shows "dm_voxels dense' ! i = dm_voxels dense ! i \<or> dm_voxels dense' ! i = 0"
  using assms unfolding fades_def by blast

lemma fades_frame:
  assumes "fades dense dense'"
  shows "dm_size dense' = dm_size dense" and "length (dm_voxels dense') = length (dm_voxels dense)"
  using assms unfolding fades_def by blast+

lemma fades_trans:
  assumes "fades a b" and "fades b c"
  shows "fades a c"
proof -
  note ab = fades_frame [OF assms(1)] and bc = fades_frame [OF assms(2)]
  have "dm_voxels c ! i = dm_voxels a ! i \<or> dm_voxels c ! i = 0"
    if "i < length (dm_voxels a)" for i
  proof -
    from that ab(2) have "i < length (dm_voxels b)" by simp
    from fades_cell [OF assms(2) this] fades_cell [OF assms(1) that]
    show ?thesis by metis
  qed
  then have "\<forall>i < length (dm_voxels a). dm_voxels c ! i = dm_voxels a ! i \<or> dm_voxels c ! i = 0"
    by blast
  moreover have "dm_size c = dm_size a" using ab(1) bc(1) by simp
  moreover have "length (dm_voxels c) = length (dm_voxels a)" using ab(2) bc(2) by simp
  ultimately show ?thesis unfolding fades_def by (intro conjI)
qed

lemma fades_voxel:
  assumes "fades dense dense'" and "voxel dense' x y z = Inr c" and "c \<noteq> 0"
  shows "voxel dense x y z = Inr c"
proof -
  let ?i = "voxel_index (dm_size dense) x y z"
  note fr = fades_frame [OF assms(1)]
  from assms(2) fr have i: "?i < length (dm_voxels dense)" and c: "dm_voxels dense' ! ?i = c"
    by (auto simp: voxel_def Let_def split: if_splits)
  from fades_cell [OF assms(1) i] c assms(3) have "dm_voxels dense ! ?i = c" by metis
  with i show ?thesis by (simp add: voxel_def)
qed

lemma fades_nonzero:
  assumes "fades dense dense'" and "nonzero (voxel dense' x y z) = Inr True"
  shows "nonzero (voxel dense x y z) = Inr True"
proof -
  from assms(2) obtain c where "voxel dense' x y z = Inr c" and "c \<noteq> 0"
    unfolding nonzero_True by blast
  with assms(1) have "voxel dense x y z = Inr c" by (rule fades_voxel)
  with \<open>c \<noteq> 0\<close> show ?thesis unfolding nonzero_True by blast
qed

lemma fades_is_hidden:
  assumes "fades dense dense'" and "is_hidden dense' v = Inr True"
  shows "is_hidden dense v = Inr True"
proof -
  note sz = fades_frame(1) [OF assms(1)]
  note nz = fades_nonzero [OF assms(1)]
  from assms(2) show ?thesis
    unfolding is_hidden_def Let_def and_also_True sz
    by (blast intro: nz)
qed

lemma voxel_assign_zero_fades:
  assumes "voxel_assign dense x y z 0 = Inr dense'"
  shows "fades dense dense'" and "voxel dense' x y z = Inr 0"
proof -
  let ?i = "voxel_index (dm_size dense) x y z"
  from assms have i: "?i < length (dm_voxels dense)"
    and d: "dense' = dense\<lparr>dm_voxels := (dm_voxels dense)[?i := 0]\<rparr>"
    by (auto simp: voxel_assign_def Let_def split: if_splits)
  from i show "fades dense dense'"
    unfolding d fades_def
    by (auto simp: nth_list_update)
  from i show "voxel dense' x y z = Inr 0"
    by (simp add: d voxel_def)
qed

lemma fades_zero_cell:
  assumes "fades dense dense'" and "voxel dense x y z = Inr 0"
  shows "voxel dense' x y z = Inr 0"
proof -
  let ?i = "voxel_index (dm_size dense) x y z"
  note fr = fades_frame [OF assms(1)]
  from assms(2) have i: "?i < length (dm_voxels dense)" and c: "dm_voxels dense ! ?i = 0"
    by (auto simp: voxel_def Let_def split: if_splits)
  from fades_cell [OF assms(1) i] c have "dm_voxels dense' ! ?i = 0" by metis
  with i fr show ?thesis by (simp add: voxel_def)
qed

lemma RemoveHiddenVoxels_sound:
  assumes "RemoveHiddenVoxels dense sparse voxels = Inr (dense', sparse')"
  shows "fades dense dense' \<and>
    (\<exists>keep. length keep = length voxels \<and>
       sm_voxels sparse' = sm_voxels sparse @ map fst (filter snd (zip voxels keep)) \<and>
       (\<forall>i < length voxels. \<not> keep ! i \<longrightarrow>
          is_hidden dense (voxels ! i) = Inr True \<and>
          voxel dense' (uint (vox_x (voxels ! i))) (uint (vox_y (voxels ! i)))
                (uint (vox_z (voxels ! i))) = Inr 0))"
  using assms
proof (induction voxels arbitrary: dense sparse)
  case Nil
  then show ?case by (simp add: fades_refl)
next
  case (Cons v vs)
  show ?case
  proof (cases "is_hidden dense v")
    case (Inl e)
    with Cons.prems show ?thesis by simp
  next
    case (Inr b)
    show ?thesis
    proof (cases b)
      case True
      with Inr Cons.prems obtain d1 where
        d1: "voxel_assign dense (uint (vox_x v)) (uint (vox_y v)) (uint (vox_z v)) 0 = Inr d1"
        and rec: "RemoveHiddenVoxels d1 sparse vs = Inr (dense', sparse')"
        by (auto split: sum.splits)
      note f1 = voxel_assign_zero_fades [OF d1]
      from Cons.IH [OF rec] obtain keep where f2: "fades d1 dense'"
        and len: "length keep = length vs"
        and sp: "sm_voxels sparse' = sm_voxels sparse @ map fst (filter snd (zip vs keep))"
        and hid: "\<forall>i < length vs. \<not> keep ! i \<longrightarrow>
          is_hidden d1 (vs ! i) = Inr True \<and>
          voxel dense' (uint (vox_x (vs ! i))) (uint (vox_y (vs ! i)))
                (uint (vox_z (vs ! i))) = Inr 0"
        by blast
      have zero: "voxel dense' (uint (vox_x v)) (uint (vox_y v)) (uint (vox_z v)) = Inr 0"
        using f2 f1(2) by (rule fades_zero_cell)
      have "\<forall>i < length (v # vs). \<not> (False # keep) ! i \<longrightarrow>
          is_hidden dense ((v # vs) ! i) = Inr True \<and>
          voxel dense' (uint (vox_x ((v # vs) ! i))) (uint (vox_y ((v # vs) ! i)))
                (uint (vox_z ((v # vs) ! i))) = Inr 0"
      proof (intro allI impI)
        fix i
        assume i: "i < length (v # vs)" and k: "\<not> (False # keep) ! i"
        show "is_hidden dense ((v # vs) ! i) = Inr True \<and>
          voxel dense' (uint (vox_x ((v # vs) ! i))) (uint (vox_y ((v # vs) ! i)))
                (uint (vox_z ((v # vs) ! i))) = Inr 0"
        proof (cases i)
          case 0
          with Inr True zero show ?thesis by simp
        next
          case (Suc j)
          from i Suc have j: "j < length vs" by simp
          from k Suc have "\<not> keep ! j" by simp
          with hid j have h1: "is_hidden d1 (vs ! j) = Inr True"
            and z: "voxel dense' (uint (vox_x (vs ! j))) (uint (vox_y (vs ! j)))
                (uint (vox_z (vs ! j))) = Inr 0"
            by blast+
          from f1(1) h1 have "is_hidden dense (vs ! j) = Inr True" by (rule fades_is_hidden)
          with z Suc show ?thesis by simp
        qed
      qed
      moreover have "length (False # keep) = length (v # vs)" using len by simp
      moreover have "sm_voxels sparse' =
          sm_voxels sparse @ map fst (filter snd (zip (v # vs) (False # keep)))"
        using sp by simp
      moreover have "fades dense dense'" using f1(1) f2 by (rule fades_trans)
      ultimately show ?thesis by blast
    next
      case False
      with Inr Cons.prems have
        rec: "RemoveHiddenVoxels dense (sparse\<lparr>sm_voxels := sm_voxels sparse @ [v]\<rparr>) vs =
                Inr (dense', sparse')"
        by simp
      from Cons.IH [OF rec] obtain keep where f: "fades dense dense'"
        and len: "length keep = length vs"
        and sp: "sm_voxels sparse' = (sm_voxels sparse @ [v]) @ map fst (filter snd (zip vs keep))"
        and hid: "\<forall>i < length vs. \<not> keep ! i \<longrightarrow>
          is_hidden dense (vs ! i) = Inr True \<and>
          voxel dense' (uint (vox_x (vs ! i))) (uint (vox_y (vs ! i)))
                (uint (vox_z (vs ! i))) = Inr 0"
        by auto
      have "\<forall>i < length (v # vs). \<not> (True # keep) ! i \<longrightarrow>
          is_hidden dense ((v # vs) ! i) = Inr True \<and>
          voxel dense' (uint (vox_x ((v # vs) ! i))) (uint (vox_y ((v # vs) ! i)))
                (uint (vox_z ((v # vs) ! i))) = Inr 0"
      proof (intro allI impI)
        fix i
        assume i: "i < length (v # vs)" and k: "\<not> (True # keep) ! i"
        then obtain j where ij: "i = Suc j" by (cases i) auto
        from i ij have j: "j < length vs" by simp
        from k ij have "\<not> keep ! j" by simp
        with hid j have "is_hidden dense (vs ! j) = Inr True \<and>
          voxel dense' (uint (vox_x (vs ! j))) (uint (vox_y (vs ! j)))
                (uint (vox_z (vs ! j))) = Inr 0"
          by blast
        with ij show "is_hidden dense ((v # vs) ! i) = Inr True \<and>
          voxel dense' (uint (vox_x ((v # vs) ! i))) (uint (vox_y ((v # vs) ! i)))
                (uint (vox_z ((v # vs) ! i))) = Inr 0"
          by simp
      qed
      moreover have "length (True # keep) = length (v # vs)" using len by simp
      moreover have "sm_voxels sparse' =
          sm_voxels sparse @ map fst (filter snd (zip (v # vs) (True # keep)))"
        using sp by simp
      ultimately show ?thesis using f by blast
    qed
  qed
qed

subsection \<open>Reading what the format writes\<close>

lemma le32_value:
  "ucast (ucast w :: u8) OR push_bit 8 (ucast (ucast (drop_bit 8 w) :: u8)) OR
     push_bit 16 (ucast (ucast (drop_bit 16 w) :: u8)) OR
     push_bit 24 (ucast (ucast (drop_bit 24 w) :: u8)) = w" for w :: u32
proof (rule bit_word_eqI)
  fix n assume n: "n < LENGTH(32)"
  consider "n < 8" | "8 \<le> n" "n < 16" | "16 \<le> n" "n < 24" | "24 \<le> n" "n < 32"
    using n by fastforce
  then show "bit (ucast (ucast w :: u8) OR push_bit 8 (ucast (ucast (drop_bit 8 w) :: u8)) OR
     push_bit 16 (ucast (ucast (drop_bit 16 w) :: u8)) OR
     push_bit 24 (ucast (ucast (drop_bit 24 w) :: u8)) :: u32) n = bit w n"
    by cases (auto simp: bit_simps)
qed

lemma unat_of_nat_u32: "n < 2 ^ 32 \<Longrightarrow> unat (of_nat n :: u32) = n"
  by (simp add: unat_of_nat take_bit_nat_eq_self)

lemma length_le32 [simp]: "length (le32 w) = 4"
  by (simp add: le32_def)

lemma drop_after:
  assumes "drop (gpos f) (content f) = a @ b"
  shows "drop (gpos f + length a) (content f) = b"
proof -
  have "drop (gpos f + length a) (content f) = drop (length a) (drop (gpos f) (content f))"
    by (simp add: add.commute)
  with assms show ?thesis by simp
qed

lemma ifstream_read_bytes:
  assumes "\<not> failbit f" and "drop (gpos f) (content f) = a @ b"
  shows "ifstream_read f (length a) = (a, f\<lparr>gpos := gpos f + length a\<rparr>)"
  using assms by (simp add: ifstream_read_def)

lemma le_u32read_le32:
  assumes "\<not> failbit f" and "drop (gpos f) (content f) = le32 w @ b"
  shows "le_u32read f = (w, f\<lparr>gpos := gpos f + 4\<rparr>)"
proof -
  from ifstream_read_bytes [OF assms]
  have "ifstream_read f 4 = (le32 w, f\<lparr>gpos := gpos f + 4\<rparr>)" by simp
  then show ?thesis
    by (simp add: le_u32read_def le32_def le32_value)
qed

lemma read_uint8_byte:
  assumes "\<not> failbit f" and "drop (gpos f) (content f) = c # b"
  shows "read_uint8 f = (c, f\<lparr>gpos := gpos f + 1\<rparr>)"
proof -
  from assms(2) have "drop (gpos f) (content f) = [c] @ b" by simp
  from ifstream_read_bytes [OF assms(1) this]
  have "ifstream_read f 1 = ([c], f\<lparr>gpos := gpos f + 1\<rparr>)" by simp
  then show ?thesis
    by (simp add: read_uint8_def read_byte_def)
qed


lemma drop_bound:
  assumes "drop g xs = a @ b"
  shows "g + length a \<le> length xs \<or> a = []"
proof -
  have "length (drop g xs) = length a + length b" using assms by simp
  then show ?thesis by (cases a) auto
qed

lemma record_bytes_read:
  assumes "\<not> failbit f" and "drop (gpos f) (content f) = record_bytes v @ b"
  shows "xyzi_records (Suc n) f = v # xyzi_records n (f\<lparr>gpos := gpos f + 4\<rparr>)"
    and "xyzi_rest (Suc n) f = xyzi_rest n (f\<lparr>gpos := gpos f + 4\<rparr>)"
proof -
  let ?g = "\<lambda>k. f\<lparr>gpos := gpos f + k\<rparr>"
  from assms(2) have d0: "drop (gpos f) (content f) = vox_x v # ([vox_y v, vox_z v, vox_color v] @ b)"
    by (simp add: record_bytes_def)
  have d1: "drop (gpos (?g 1)) (content (?g 1)) = vox_y v # ([vox_z v, vox_color v] @ b)"
    using drop_after [of f "[vox_x v]" "[vox_y v, vox_z v, vox_color v] @ b"] d0 by simp
  have d2: "drop (gpos (?g 2)) (content (?g 2)) = vox_z v # ([vox_color v] @ b)"
    using drop_after [of f "[vox_x v, vox_y v]" "[vox_z v, vox_color v] @ b"] d0 by simp
  have d3: "drop (gpos (?g 3)) (content (?g 3)) = vox_color v # b"
    using drop_after [of f "[vox_x v, vox_y v, vox_z v]" "[vox_color v] @ b"] d0
    by (simp add: numeral_3_eq_3)
  have r0: "read_uint8 f = (vox_x v, ?g 1)"
    using read_uint8_byte [OF assms(1) d0] .
  have r1: "read_uint8 (?g 1) = (vox_y v, ?g 2)"
    using read_uint8_byte [OF _ d1] assms(1) by simp
  have r2: "read_uint8 (?g 2) = (vox_z v, ?g 3)"
    using read_uint8_byte [OF _ d2] assms(1) by simp
  have r3: "read_uint8 (?g 3) = (vox_color v, ?g 4)"
    using read_uint8_byte [OF _ d3] assms(1) by simp
  show "xyzi_records (Suc n) f = v # xyzi_records n (?g 4)"
    unfolding xyzi_records.simps Let_def r0 r1 r2 r3 prod.case by simp
  show "xyzi_rest (Suc n) f = xyzi_rest n (?g 4)"
    unfolding xyzi_rest.simps Let_def r0 r1 r2 r3 prod.case ..
qed

lemma xyzi_records_bytes:
  assumes "\<not> failbit f" and "drop (gpos f) (content f) = concat (map record_bytes vs) @ b"
  shows "xyzi_records (length vs) f = vs \<and>
         xyzi_rest (length vs) f = f\<lparr>gpos := gpos f + 4 * length vs\<rparr>"
  using assms
proof (induction vs arbitrary: f)
  case Nil
  show ?case by simp
next
  case (Cons v vs)
  let ?g = "f\<lparr>gpos := gpos f + 4\<rparr>"
  from Cons.prems(2) have d: "drop (gpos f) (content f) =
      record_bytes v @ (concat (map record_bytes vs) @ b)"
    by simp
  have "length (record_bytes v) = 4" by (simp add: record_bytes_def)
  with drop_after [OF d] have d': "drop (gpos ?g) (content ?g) = concat (map record_bytes vs) @ b"
    by simp
  from Cons.prems(1) have g: "\<not> failbit ?g" by simp
  from Cons.IH [OF g d'] record_bytes_read [OF Cons.prems(1) d, of "length vs"]
  show ?case by (simp add: algebra_simps)
qed

lemma read_chunk_header_bytes:
  assumes "\<not> failbit f" and "drop (gpos f) (content f) = tag @ le32 a @ le32 c @ b"
    and "length tag = 4"
  shows "read_chunk_header f = (takeWhile (\<lambda>x. x \<noteq> 0) tag, a, c, f\<lparr>gpos := gpos f + 12\<rparr>)"
proof -
  let ?g = "\<lambda>k. f\<lparr>gpos := gpos f + k\<rparr>"
  have r0: "ifstream_read f 4 = (tag, ?g 4)"
    using ifstream_read_bytes [OF assms(1,2)] assms(3) by simp
  have d1: "drop (gpos (?g 4)) (content (?g 4)) = le32 a @ (le32 c @ b)"
    using drop_after [OF assms(2)] assms(3) by simp
  have r1: "le_u32read (?g 4) = (a, ?g 8)"
    using le_u32read_le32 [OF _ d1] assms(1) by simp
  have d2: "drop (gpos (?g 8)) (content (?g 8)) = le32 c @ b"
    using drop_after [of f "tag @ le32 a" "le32 c @ b"] assms(2,3) by simp
  have r2: "le_u32read (?g 8) = (c, ?g 12)"
    using le_u32read_le32 [OF _ d2] assms(1) by simp
  show ?thesis
    by (simp add: read_chunk_header_def r0 r1 r2)
qed

lemma ReadSizeChunk_bytes:
  assumes "\<not> failbit f"
    and "drop (gpos f) (content f) = le32 (vec_x sz) @ le32 (vec_y sz) @ le32 (vec_z sz) @ b"
  shows "ReadSizeChunk f vf cs chs = (f\<lparr>gpos := gpos f + 12\<rparr>, vf\<lparr>cur_size := sz\<rparr>)"
proof -
  let ?g = "\<lambda>k. f\<lparr>gpos := gpos f + k\<rparr>"
  have r0: "le_u32read f = (vec_x sz, ?g 4)"
    using le_u32read_le32 [OF assms] .
  have d1: "drop (gpos (?g 4)) (content (?g 4)) = le32 (vec_y sz) @ (le32 (vec_z sz) @ b)"
    using drop_after [OF assms(2)] by simp
  have r1: "le_u32read (?g 4) = (vec_y sz, ?g 8)"
    using le_u32read_le32 [OF _ d1] assms(1) by simp
  have d2: "drop (gpos (?g 8)) (content (?g 8)) = le32 (vec_z sz) @ b"
    using drop_after [of f "le32 (vec_x sz) @ le32 (vec_y sz)" "le32 (vec_z sz) @ b"] assms(2)
    by simp
  have r2: "le_u32read (?g 8) = (vec_z sz, ?g 12)"
    using le_u32read_le32 [OF _ d2] assms(1) by simp
  show ?thesis
    by (simp add: ReadSizeChunk_def r0 r1 r2)
qed

lemma decoded_grid_written:
  "decoded_grid sz recs =
     \<lparr>dm_size = sz,
      dm_voxels = written_grid (\<lambda>v. plain_offset sz v mod 2 ^ 32) (plain_cells sz mod 2 ^ 32) recs,
      dm_palette = None\<rparr>"
proof -
  have "(\<lambda>v. plain_offset sz v mod 2 ^ 32) = cell_of sz"
    by (rule ext) (simp add: cell_of_mod plain_offset_def)
  moreover have "plain_cells sz mod 2 ^ 32 = cell_count sz"
    by (simp add: cell_count_mod plain_cells_def)
  ultimately show ?thesis
    by (simp add: written_grid_def decoded_grid_def write_cells_def)
qed

lemma ReadXyziChunk_bytes:
  assumes "\<not> failbit f"
    and "drop (gpos f) (content f) = le32 (of_nat (length recs)) @ concat (map record_bytes recs) @ b"
    and "length recs < 2 ^ 32"
  shows "ReadXyziChunk f vf cs chs =
     (case xyzi_models (remove_hidden_voxels vf) (cur_size vf) recs of
        Inl e \<Rightarrow> Inl e
      | Inr (dense, sparse) \<Rightarrow>
          Inr (f\<lparr>gpos := gpos f + 4 + 4 * length recs\<rparr>,
               vf\<lparr>dense_models :=
                    (if load_dense vf then dense_models vf @ [dense] else dense_models vf),
                  sparse_models :=
                    (if load_sparse vf then sparse_models vf @ [sparse] else sparse_models vf)\<rparr>))"
proof -
  let ?g = "f\<lparr>gpos := gpos f + 4\<rparr>"
  have r: "le_u32read f = (of_nat (length recs), ?g)"
    using le_u32read_le32 [OF assms(1,2)] .
  have d: "drop (gpos ?g) (content ?g) = concat (map record_bytes recs) @ b"
    using drop_after [OF assms(2)] by simp
  have n: "unat (of_nat (length recs) :: u32) = length recs"
    using assms(3) by (rule unat_of_nat_u32)
  from xyzi_records_bytes [OF _ d] assms(1)
  have recs: "xyzi_records (length recs) ?g = recs"
    and rest: "xyzi_rest (length recs) ?g = f\<lparr>gpos := gpos f + 4 + 4 * length recs\<rparr>"
    by simp_all
  have cond: "(\<forall>v \<in> set recs. cell_of (cur_size vf) v < cell_count (cur_size vf)) \<longleftrightarrow>
      list_all (\<lambda>v. plain_offset (cur_size vf) v mod 2 ^ 32 < plain_cells (cur_size vf) mod 2 ^ 32) recs"
    by (simp add: list_all_iff cell_of_mod cell_count_mod plain_offset_def plain_cells_def)
  show ?thesis
    unfolding ReadXyziChunk_eq [OF r] n recs rest Let_def cond xyzi_models_def
      decoded_grid_written VoxSparseModel_new_def
    by (simp split: sum.splits)
qed


lemma rgba_palette_bytes:
  assumes "drop g xs = bs @ b" and "length bs = 1024"
  shows "rgba_palette xs g pal = rgba_palette bs 0 pal"
proof -
  have le: "g + 1024 \<le> length xs"
    using drop_bound [OF assms(1)] assms(2) by auto
  have nth: "xs ! (g + k) = bs ! k" if "k < 1024" for k
  proof -
    have "drop g xs ! k = xs ! (g + k)" using le by simp
    with assms that show ?thesis by (simp add: nth_append)
  qed
  have "color_at xs (g + 4 * (i - 1)) = color_at bs (0 + 4 * (i - 1))"
    if "i \<in> set [1..<256]" for i
  proof -
    from that have "4 * (i - 1) + 3 < 1024" by auto
    then have "4 * (i - 1) < 1024" "4 * (i - 1) + 1 < 1024" "4 * (i - 1) + 2 < 1024"
      "4 * (i - 1) + 3 < 1024"
      by simp_all
    from this [THEN nth] show ?thesis
      by (simp add: color_at_def add.assoc)
  qed
  then have "fold (\<lambda>i p. p[i := color_at xs (g + 4 * (i - 1))]) [1..<256] pal =
        fold (\<lambda>i p. p[i := color_at bs (0 + 4 * (i - 1))]) [1..<256] pal"
    by (intro fold_cong refl) simp
  then show ?thesis by (simp only: rgba_palette_def)
qed

lemma length_records_bytes [simp]: "length (concat (map record_bytes recs)) = 4 * length recs"
  by (induction recs) (simp_all add: record_bytes_def)

lemma length_chunk_bytes:
  "chunk_ok c \<Longrightarrow> length (chunk_bytes c) = 12 + length (chunk_contents c)"
  by (cases c) (simp_all add: chunk_bytes_def bytes_of_def)

lemma chunk_tag_ok:
  assumes "chunk_ok c"
  shows "length (chunk_tag c) = 4" and "takeWhile (\<lambda>x. x \<noteq> 0) (chunk_tag c) = chunk_tag c"
proof -
  show "length (chunk_tag c) = 4"
  proof (cases c)
    case (Other_chunk tag bs)
    with assms show ?thesis by simp
  qed (simp_all add: bytes_of_def)
  show "takeWhile (\<lambda>x. x \<noteq> 0) (chunk_tag c) = chunk_tag c"
  proof (cases c)
    case (Other_chunk tag bs)
    with assms have "\<forall>x \<in> set tag. x \<noteq> 0" by auto
    then have "takeWhile (\<lambda>x. x \<noteq> 0) tag = tag" by (simp add: takeWhile_eq_all_conv)
    with Other_chunk show ?thesis by simp
  qed (simp_all add: bytes_of_def)
qed

lemma chunk_handler_chunk:
  assumes ok: "chunk_ok c" and good: "\<not> failbit f"
    and bytes: "drop (gpos f) (content f) = chunk_contents c @ b"
    and small: "length (chunk_contents c) < 2 ^ 32"
  shows "\<exists>g. chunk_handler m (chunk_tag c) f vf cs chs =
     Some (case after_chunk c vf of
             Inl e \<Rightarrow> Inl (e, vf)
           | Inr vf' \<Rightarrow> Inr (f\<lparr>gpos := g\<rparr>, vf'))"
proof (cases c)
  case (Size_chunk sz)
  with bytes have "drop (gpos f) (content f) = le32 (vec_x sz) @ le32 (vec_y sz) @ le32 (vec_z sz) @ b"
    by simp
  from ReadSizeChunk_bytes [OF good this, of vf cs chs] Size_chunk
  have "chunk_handler m (chunk_tag c) f vf cs chs =
     Some (case after_chunk c vf of
             Inl e \<Rightarrow> Inl (e, vf)
           | Inr vf' \<Rightarrow> Inr (f\<lparr>gpos := gpos f + 12\<rparr>, vf'))"
    by (simp add: chunk_handler_def bytes_of_def)
  then show ?thesis ..
next
  case (Xyzi_chunk recs)
  with bytes have d: "drop (gpos f) (content f) =
      le32 (of_nat (length recs)) @ concat (map record_bytes recs) @ b"
    by simp
  from small Xyzi_chunk have "length recs < 2 ^ 32" by simp
  from ReadXyziChunk_bytes [OF good d this, of vf cs chs] Xyzi_chunk
  have "chunk_handler m (chunk_tag c) f vf cs chs =
     Some (case after_chunk c vf of
             Inl e \<Rightarrow> Inl (e, vf)
           | Inr vf' \<Rightarrow> Inr (f\<lparr>gpos := gpos f + 4 + 4 * length recs\<rparr>, vf'))"
    by (simp add: chunk_handler_def bytes_of_def split: sum.splits)
  then show ?thesis ..
next
  case (Rgba_chunk bs)
  with ok bytes have len: "length bs = 1024" and d: "drop (gpos f) (content f) = bs @ b"
    by simp_all
  from drop_bound [OF d] len have le: "gpos f + 1020 \<le> length (content f)" by auto
  from ReadRgbaChunk_good [OF good le, of vf cs chs] rgba_palette_bytes [OF d len, of "palette vf"]
    Rgba_chunk
  have "chunk_handler m (chunk_tag c) f vf cs chs =
     Some (case after_chunk c vf of
             Inl e \<Rightarrow> Inl (e, vf)
           | Inr vf' \<Rightarrow> Inr (f\<lparr>gpos := gpos f + 1020\<rparr>, vf'))"
    by (simp add: chunk_handler_def bytes_of_def)
  then show ?thesis ..
next
  case (Other_chunk tag bs)
  with ok have "chunk_handler m (chunk_tag c) f vf cs chs =
     Some (case after_chunk c vf of
             Inl e \<Rightarrow> Inl (e, vf)
           | Inr vf' \<Rightarrow> Inr (f\<lparr>gpos := gpos f\<rparr>, vf'))"
    by (auto simp: chunk_handler_def)
  then show ?thesis ..
qed

lemma ReadChunk_chunk:
  assumes ok: "chunk_ok c" and good: "\<not> failbit f"
    and bytes: "drop (gpos f) (content f) = chunk_bytes c @ b"
    and small: "gpos f + length (chunk_bytes c) < 2 ^ 32"
  shows "ReadChunk (Suc m) f vf =
     Some (case after_chunk c vf of
             Inl e \<Rightarrow> Inl (e, vf)
           | Inr vf' \<Rightarrow> Inr (f\<lparr>gpos := gpos f + length (chunk_bytes c)\<rparr>, vf'))"
proof -
  let ?n = "length (chunk_contents c)"
  let ?f3 = "f\<lparr>gpos := gpos f + 12\<rparr>"
  from bytes have d: "drop (gpos f) (content f) =
      chunk_tag c @ le32 (of_nat ?n) @ le32 0 @ (chunk_contents c @ b)"
    by (simp add: chunk_bytes_def)
  have header: "read_chunk_header f = (chunk_tag c, of_nat ?n, 0, ?f3)"
    using read_chunk_header_bytes [OF good d chunk_tag_ok(1) [OF ok]] chunk_tag_ok(2) [OF ok]
    by simp
  have d3: "drop (gpos ?f3) (content ?f3) = chunk_contents c @ b"
    using drop_after [of f "chunk_tag c @ le32 (of_nat ?n) @ le32 0" "chunk_contents c @ b"] d
      chunk_tag_ok(1) [OF ok]
    by simp
  from small have n: "?n < 2 ^ 32" and p: "gpos f + 12 + ?n < 2 ^ 32"
    by (simp_all add: length_chunk_bytes [OF ok])
  from good have g3: "\<not> failbit ?f3" by simp
  have "word_of_int (tellg ?f3) + of_nat ?n = (of_nat (gpos f + 12 + ?n) :: u32)"
    using good by (simp add: tellg_def)
  moreover have "unat (of_nat (gpos f + 12 + ?n) :: u32) = gpos f + 12 + ?n"
    using p by (rule unat_of_nat_u32)
  ultimately have next_pos:
    "seekg (f\<lparr>gpos := g\<rparr>) (word_of_int (tellg ?f3) + of_nat ?n) =
       f\<lparr>gpos := gpos f + length (chunk_bytes c)\<rparr>" for g
    using good by (simp add: seekg_def length_chunk_bytes [OF ok])
  from chunk_handler_chunk [OF ok g3 d3 n, of m vf "of_nat ?n" 0] obtain g where
    h: "chunk_handler m (chunk_tag c) ?f3 vf (of_nat ?n) 0 =
     Some (case after_chunk c vf of
             Inl e \<Rightarrow> Inl (e, vf)
           | Inr vf' \<Rightarrow> Inr (?f3\<lparr>gpos := g\<rparr>, vf'))" ..
  show ?thesis
    unfolding ReadChunk_Suc [OF header] h
    by (cases "after_chunk c vf") (simp_all add: next_pos)
qed


lemma ReadMainChunk_loop_chunks:
  assumes "list_all chunk_ok cs" and "\<not> failbit f"
    and "drop (gpos f) (content f) = concat (map chunk_bytes cs)"
    and "gpos f \<le> length (content f)" and "length (content f) < 2 ^ 32"
    and "length cs < n"
  shows "ReadMainChunk_loop n (of_nat (length (content f))) f vf =
     Some (case after_chunks cs vf of
             Inl x \<Rightarrow> Inl x
           | Inr vf' \<Rightarrow> Inr (f\<lparr>gpos := length (content f)\<rparr>, vf'))"
  using assms
proof (induction cs arbitrary: f vf n)
  case Nil
  from Nil.prems(6) obtain k where n: "n = Suc k" by (cases n) auto
  from Nil.prems(3,4) have at_end: "gpos f = length (content f)" by simp
  have e: "uint (of_nat (length (content f)) :: u32) = int (length (content f))"
    using unat_of_nat_u32 [OF Nil.prems(5)] by (simp add: uint_nat)
  from Nil.prems(2) at_end have "\<not> tellg f < int (length (content f))"
    by (simp add: tellg_def)
  moreover have "f\<lparr>gpos := length (content f)\<rparr> = f" using at_end by simp
  ultimately show ?case
    unfolding n ReadMainChunk_loop.simps e by simp
next
  case (Cons c cs)
  from Cons.prems(6) obtain m where n: "n = Suc (Suc m)" and m: "length cs < Suc m"
    by (cases n; cases "n - 1") auto
  from Cons.prems(1) have ok: "chunk_ok c" and oks: "list_all chunk_ok cs" by simp_all
  from Cons.prems(3) have d: "drop (gpos f) (content f) = chunk_bytes c @ concat (map chunk_bytes cs)"
    by simp
  have pos: "0 < length (chunk_bytes c)" by (simp add: length_chunk_bytes [OF ok])
  from drop_bound [OF d] pos have le: "gpos f + length (chunk_bytes c) \<le> length (content f)"
    by auto
  with Cons.prems(5) have small: "gpos f + length (chunk_bytes c) < 2 ^ 32" by simp
  let ?f' = "f\<lparr>gpos := gpos f + length (chunk_bytes c)\<rparr>"
  have e: "uint (of_nat (length (content f)) :: u32) = int (length (content f))"
    using unat_of_nat_u32 [OF Cons.prems(5)] by (simp add: uint_nat)
  from le pos have "gpos f < length (content f)" by linarith
  with Cons.prems(2) have go: "tellg f < int (length (content f))"
    by (simp add: tellg_def)
  note chunk = ReadChunk_chunk [OF ok Cons.prems(2) d small, of m vf]
  show ?case
  proof (cases "after_chunk c vf")
    case (Inl ex)
    with chunk go show ?thesis
      unfolding n ReadMainChunk_loop.simps(2) [of "Suc m"] e
      by (simp del: ReadMainChunk_loop.simps ReadChunk.simps)
  next
    case (Inr vf1)
    have d': "drop (gpos ?f') (content ?f') = concat (map chunk_bytes cs)"
      using drop_after [OF d] by simp
    from Cons.prems(2) have g': "\<not> failbit ?f'" by simp
    from le have le': "gpos ?f' \<le> length (content ?f')" by simp
    from Cons.prems(5) have lt': "length (content ?f') < 2 ^ 32" by simp
    have eq: "?f'\<lparr>gpos := length (content ?f')\<rparr> = f\<lparr>gpos := length (content f)\<rparr>"
      "?f'\<lparr>gpos := length (content f)\<rparr> = f\<lparr>gpos := length (content f)\<rparr>"
      "content ?f' = content f"
      by simp_all
    note ih = Cons.IH [OF oks g' d' le' lt' m, of vf1, unfolded eq]
    from ih chunk go Inr show ?thesis
      unfolding n ReadMainChunk_loop.simps(2) [of "Suc m"] e
      by (simp del: ReadMainChunk_loop.simps ReadChunk.simps)
  qed
qed


lemma Load_vox_bytes:
  assumes "files e path = Some (vox_bytes cs)" and "well_formed cs" and "length cs + 2 \<le> fuel"
  shows "Load fuel e path vf =
     Some (case after_chunks cs (vf\<lparr>dense_models := []\<rparr>) of
             Inl x \<Rightarrow> Inl x
           | Inr vf2 \<Rightarrow>
               Inr (vf2\<lparr>dense_models :=
                          map (\<lambda>model. model\<lparr>dm_palette := Some (palette vf2)\<rparr>)
                              (dense_models vf2)\<rparr>))"
proof -
  let ?body = "concat (map chunk_bytes cs)"
  let ?f = "ifstream_open e path"
  let ?g = "\<lambda>k. ?f\<lparr>gpos := k\<rparr>"
  let ?vf1 = "vf\<lparr>dense_models := []\<rparr>"
  from assms(3) obtain m where fuel: "fuel = Suc m" and m: "length cs < m"
    by (cases fuel) auto
  from assms(2) have oks: "list_all chunk_ok cs" and small: "length (vox_bytes cs) < 2 ^ 32"
    by (simp_all add: well_formed_def)
  have len: "length (vox_bytes cs) = 20 + length ?body"
    by (simp add: vox_bytes_def bytes_of_def del: length_concat)
  have f: "content ?f = vox_bytes cs" "gpos ?f = 0" "\<not> failbit ?f"
    using assms(1) by (simp_all add: ifstream_open_def)
  have d0: "drop (gpos ?f) (content ?f) =
      bytes_of ''VOX '' @ (le32 150 @ bytes_of ''MAIN'' @ le32 0 @ le32 (of_nat (length ?body)) @ ?body)"
    by (simp add: f vox_bytes_def)
  have l4: "length (bytes_of ''VOX '') = 4" "length (bytes_of ''MAIN'') = 4"
    by (simp_all add: bytes_of_def)
  have "ifstream_read ?f 4 = (bytes_of ''VOX '', ?g 4)"
    using ifstream_read_bytes [OF f(3) d0] by (simp add: l4 f(2))
  then have id: "ReadId ?f ''VOX '' = Inr (?g 4)"
    by (simp add: ReadId_VOX)
  have g: "content (?g k) = vox_bytes cs" "gpos (?g k) = k" "\<not> failbit (?g k)" for k
    using f by simp_all
  have d4: "drop (gpos (?g 4)) (content (?g 4)) =
      le32 150 @ (bytes_of ''MAIN'' @ le32 0 @ le32 (of_nat (length ?body)) @ ?body)"
    using drop_after [OF d0] by (simp add: l4 f(2))
  have version: "le_i32read (?g 4) = (150, ?g 8)"
    using le_u32read_le32 [OF g(3) d4] by (simp add: le_i32read_def)
  have d8: "drop (gpos (?g 8)) (content (?g 8)) =
      bytes_of ''MAIN'' @ le32 0 @ le32 (of_nat (length ?body)) @ ?body"
    using drop_after [OF d4] by simp
  have "takeWhile (\<lambda>x. x \<noteq> 0) (bytes_of ''MAIN'') = bytes_of ''MAIN''"
    by (simp add: bytes_of_def)
  with read_chunk_header_bytes [OF g(3) d8 l4(2)]
  have header: "read_chunk_header (?g 8) = (bytes_of ''MAIN'', 0, of_nat (length ?body), ?g 20)"
    by simp
  have d20: "drop (gpos (?g 20)) (content (?g 20)) = ?body"
    using drop_after [of "?g 8" "bytes_of ''MAIN'' @ le32 0 @ le32 (of_nat (length ?body))" ?body] d8
    by (simp add: l4)
  have end_pos: "word_of_int (tellg (?g 20)) + of_nat (length ?body) =
      (of_nat (length (content (?g 20))) :: u32)"
    by (simp add: tellg_def f len)
  have skip: "seekg_cur (?g 20) 0 = ?g 20"
    by (simp add: seekg_cur_def f)
  have loop: "ReadMainChunk_loop m (of_nat (length (content (?g 20)))) (?g 20) ?vf1 =
     Some (case after_chunks cs ?vf1 of
             Inl x \<Rightarrow> Inl x
           | Inr vf' \<Rightarrow> Inr ((?g 20)\<lparr>gpos := length (content (?g 20))\<rparr>, vf'))"
  proof (rule ReadMainChunk_loop_chunks [OF oks _ d20 _ _ m])
    show "\<not> failbit (?g 20)" by (rule g)
    show "gpos (?g 20) \<le> length (content (?g 20))" by (simp add: f len)
    show "length (content (?g 20)) < 2 ^ 32" using small by (simp add: f)
  qed
  have main: "chunk_handler m (bytes_of ''MAIN'') (?g 20) ?vf1 0 (of_nat (length ?body)) =
     Some (case after_chunks cs ?vf1 of
             Inl x \<Rightarrow> Inl x
           | Inr vf' \<Rightarrow> Inr ((?g 20)\<lparr>gpos := length (content (?g 20))\<rparr>, vf'))"
    unfolding chunk_handler_def ReadMainChunk.simps Let_def skip end_pos loop by simp
  have chunk: "ReadChunk fuel (?g 8) ?vf1 =
     (case after_chunks cs ?vf1 of
        Inl x \<Rightarrow> Some (Inl x)
      | Inr vf' \<Rightarrow> Some (Inr (seekg ((?g 20)\<lparr>gpos := length (content (?g 20))\<rparr>)
                                (word_of_int (tellg (?g 20)) + 0 + of_nat (length ?body)), vf')))"
    unfolding fuel ReadChunk_Suc [OF header] main
    by (cases "after_chunks cs ?vf1") simp_all
  show ?thesis
    unfolding Load_def Let_def id sum.case version prod.case chunk
    by (cases "after_chunks cs ?vf1") simp_all
qed


lemma after_chunk_frame:
  assumes "after_chunk c vf = Inr vf'"
  shows "load_dense vf' = load_dense vf \<and> load_sparse vf' = load_sparse vf \<and>
         remove_hidden_voxels vf' = remove_hidden_voxels vf \<and>
         length (dense_models vf') =
           length (dense_models vf) + (if load_dense vf \<and> is_xyzi c then 1 else 0) \<and>
         (\<exists>new. sparse_models vf' = sparse_models vf @ new \<and>
            length new = (if load_sparse vf \<and> is_xyzi c then 1 else 0))"
  using assms by (cases c) (auto split: sum.splits)

lemma after_chunks_frame:
  assumes "after_chunks cs vf = Inr vf'"
  shows "load_dense vf' = load_dense vf \<and> load_sparse vf' = load_sparse vf \<and>
         remove_hidden_voxels vf' = remove_hidden_voxels vf \<and>
         length (dense_models vf') =
           length (dense_models vf) + (if load_dense vf then length (filter is_xyzi cs) else 0) \<and>
         (\<exists>new. sparse_models vf' = sparse_models vf @ new \<and>
            length new = (if load_sparse vf then length (filter is_xyzi cs) else 0))"
  using assms
proof (induction cs arbitrary: vf)
  case Nil
  then show ?case by simp
next
  case (Cons c cs)
  from Cons.prems obtain vf1 where 1: "after_chunk c vf = Inr vf1"
    and 2: "after_chunks cs vf1 = Inr vf'"
    by (auto split: sum.splits)
  from after_chunk_frame [OF 1] obtain new1 where
    f1: "load_dense vf1 = load_dense vf" "load_sparse vf1 = load_sparse vf"
      "remove_hidden_voxels vf1 = remove_hidden_voxels vf"
      "length (dense_models vf1) =
         length (dense_models vf) + (if load_dense vf \<and> is_xyzi c then 1 else 0)"
      "sparse_models vf1 = sparse_models vf @ new1"
      "length new1 = (if load_sparse vf \<and> is_xyzi c then 1 else 0)"
    by blast
  from Cons.IH [OF 2] obtain new2 where
    f2: "load_dense vf' = load_dense vf1" "load_sparse vf' = load_sparse vf1"
      "remove_hidden_voxels vf' = remove_hidden_voxels vf1"
      "length (dense_models vf') =
         length (dense_models vf1) + (if load_dense vf1 then length (filter is_xyzi cs) else 0)"
      "sparse_models vf' = sparse_models vf1 @ new2"
      "length new2 = (if load_sparse vf1 then length (filter is_xyzi cs) else 0)"
    by blast
  have "sparse_models vf' = sparse_models vf @ (new1 @ new2)" using f1(5) f2(5) by simp
  moreover have "length (new1 @ new2) =
      (if load_sparse vf then length (filter is_xyzi (c # cs)) else 0)"
    using f1(2,6) f2(6) by simp
  ultimately have "\<exists>new. sparse_models vf' = sparse_models vf @ new \<and>
      length new = (if load_sparse vf then length (filter is_xyzi (c # cs)) else 0)"
    by blast
  moreover have "length (dense_models vf') =
      length (dense_models vf) + (if load_dense vf then length (filter is_xyzi (c # cs)) else 0)"
    using f1(1,4) f2(4) by simp
  ultimately show ?case using f1(1-3) f2(1-3) by simp
qed

lemma after_chunks_Inl:
  assumes "after_chunks cs vf = Inl (ex, vf')"
  shows "\<exists>k recs. k < length cs \<and> cs ! k = Xyzi_chunk recs \<and>
           after_chunks (take k cs) vf = Inr vf' \<and>
           xyzi_models (remove_hidden_voxels vf') (cur_size vf') recs = Inl ex"
  using assms
proof (induction cs arbitrary: vf)
  case Nil
  then show ?case by simp
next
  case (Cons c cs)
  show ?case
  proof (cases "after_chunk c vf")
    case (Inl e)
    with Cons.prems have e: "e = ex" "vf' = vf" by simp_all
    from Inl obtain recs where c: "c = Xyzi_chunk recs"
      by (cases c) simp_all
    with Inl e have "xyzi_models (remove_hidden_voxels vf') (cur_size vf') recs = Inl ex"
      by (auto split: sum.splits prod.splits)
    with c e have "0 < length (c # cs) \<and> (c # cs) ! 0 = Xyzi_chunk recs \<and>
        after_chunks (take 0 (c # cs)) vf = Inr vf' \<and>
        xyzi_models (remove_hidden_voxels vf') (cur_size vf') recs = Inl ex"
      by simp
    then show ?thesis by blast
  next
    case (Inr vf1)
    with Cons.prems have "after_chunks cs vf1 = Inl (ex, vf')" by simp
    from Cons.IH [OF this] obtain k recs where k: "k < length cs" "cs ! k = Xyzi_chunk recs"
      "after_chunks (take k cs) vf1 = Inr vf'"
      "xyzi_models (remove_hidden_voxels vf') (cur_size vf') recs = Inl ex"
      by blast
    with Inr have "Suc k < length (c # cs) \<and> (c # cs) ! Suc k = Xyzi_chunk recs \<and>
        after_chunks (take (Suc k) (c # cs)) vf = Inr vf' \<and>
        xyzi_models (remove_hidden_voxels vf') (cur_size vf') recs = Inl ex"
      by simp
    then show ?thesis by blast
  qed
qed

lemma vox_bytes_second_bad: "vox_bytes second_bad_chunks = file_second_bad"
  by (simp add: vox_bytes_def second_bad_chunks_def chunk_bytes_def le32_def record_bytes_def
      file_second_bad_def bytes_of_def)

subsection \<open>A loader used twice\<close>

text \<open>
  \<open>Load\<close> does not clear \<open>sparse_models_\<close>. After \<open>file_a\<close> and then
  \<open>file_x3\<close> have been loaded by one loader, the dense collection holds the model of
  \<open>file_x3\<close> and the sparse collection the model of \<open>file_a\<close> followed by the one
  of \<open>file_x3\<close>: the sparse model that replays to the dense model 0 is at index 1.
\<close>

lemma reused_loader_pairing:
  "\<exists>vf1 vf2.
     Load 5 (env_of file_a) ''model.vox'' (VoxFile_new True True False) = Some (Inr vf1) \<and>
     Load 5 (env_of file_x3) ''model.vox'' vf1 = Some (Inr vf2) \<and>
     length (dense_models vf2) = 1 \<and> length (sparse_models vf2) = 2 \<and>
     dm_voxels (dense_models vf2 ! 0) = [0, 0, 0, 9, 0, 0, 0, 0] \<and>
     replayed_grid (sparse_models vf2 ! 0) = [5] \<and>
     replayed_grid (sparse_models vf2 ! 1) = [0, 0, 0, 9, 0, 0, 0, 0]"
  by (simp add: run_defs replicate_unfold file_a_def file_x3_def replayed_grid_def
      written_grid_def plain_cells_def plain_offset_def)
section \<open>The claims\<close>

subsection \<open>C1: which voxels are removed as hidden\<close>

text \<open>
  C1 says that with \<open>cull_hidden = true\<close> a decoded voxel is omitted from the sparse
  list if and only if it is strictly interior and its six face-adjacent cells of the
  dense grid are non-empty. \<open>RemoveHiddenVoxels\<close> zeroes the cell of each voxel it
  removes in the grid it is still reading, so a voxel next to an already removed one
  finds an empty neighbour. In \<open>file_box\<close>, a solid 4 x 3 x 3 block, the decoded grid
  is all 7 (first part, culling off), so both interior voxels (1, 1, 1) and (2, 1, 1)
  have six non-empty neighbours; with culling on, only (1, 1, 1) is removed: the
  sparse list has 35 entries, (2, 1, 1) among them, and the cell of (2, 1, 1) still
  holds 7.
\<close>

theorem second_interior_voxel_is_kept:
  "(\<exists>vf'. Load 5 (env_of file_box) ''model.vox'' (VoxFile_new True True False) = Some (Inr vf') \<and>
      map (\<lambda>dense. list_all (\<lambda>c. c = 7) (dm_voxels dense)) (dense_models vf') = [True]) \<and>
   (\<exists>vf'. Load 5 (env_of file_box) ''model.vox'' (VoxFile_new True True True) = Some (Inr vf') \<and>
      map (\<lambda>sparse. length (sm_voxels sparse)) (sparse_models vf') = [35] \<and>
      map (\<lambda>sparse. \<lparr>vox_x = 1, vox_y = 1, vox_z = 1, vox_color = 7\<rparr> \<in> set (sm_voxels sparse))
          (sparse_models vf') = [False] \<and>
      map (\<lambda>sparse. \<lparr>vox_x = 2, vox_y = 1, vox_z = 1, vox_color = 7\<rparr> \<in> set (sm_voxels sparse))
          (sparse_models vf') = [True] \<and>
      map (\<lambda>dense. (voxel dense 1 1 1, voxel dense 2 1 1)) (dense_models vf') = [(Inr 0, Inr 7)])"
proof -
  have 1: "\<exists>vf'. Load 5 (env_of file_box) ''model.vox'' (VoxFile_new True True False) = Some (Inr vf') \<and>
      map (\<lambda>dense. list_all (\<lambda>c. c = 7) (dm_voxels dense)) (dense_models vf') = [True]"
    by (simp add: run_defs replicate_unfold file_box_def solid_box_def record_bytes_def)
  have 2: "\<exists>vf'. Load 5 (env_of file_box) ''model.vox'' (VoxFile_new True True True) = Some (Inr vf') \<and>
      map (\<lambda>sparse. length (sm_voxels sparse)) (sparse_models vf') = [35] \<and>
      map (\<lambda>sparse. \<lparr>vox_x = 1, vox_y = 1, vox_z = 1, vox_color = 7\<rparr> \<in> set (sm_voxels sparse))
          (sparse_models vf') = [False] \<and>
      map (\<lambda>sparse. \<lparr>vox_x = 2, vox_y = 1, vox_z = 1, vox_color = 7\<rparr> \<in> set (sm_voxels sparse))
          (sparse_models vf') = [True] \<and>
      map (\<lambda>dense. (voxel dense 1 1 1, voxel dense 2 1 1)) (dense_models vf') = [(Inr 0, Inr 7)]"
    by (simp add: run_defs file_box_def solid_box_def record_bytes_def)
  from 1 2 show ?thesis ..
qed

subsection \<open>C2: voxels outside the declared size\<close>

text \<open>
  C2, as stated, says that a record with a coordinate not below its dimension of the
  pending \<open>Size\<close> makes the decode fail, and is never written into the grid. The
  loader has no check per axis: the only check is the one \<open>vector::at\<close> makes on the
  flat offset. In \<open>file_x3\<close> the model is 2 x 2 x 2 and the one voxel is at x = 3; its
  offset is 3, inside the grid of 8 cells, so the load succeeds and the colour 9 is
  written into the cell of (1, 1, 0).
\<close>

theorem Load_accepts_x_beyond_size:
  "\<exists>vf'. Load 5 (env_of file_x3) ''model.vox'' (VoxFile_new True True False) = Some (Inr vf') \<and>
     map dm_size (dense_models vf') = [\<lparr>vec_x = 2, vec_y = 2, vec_z = 2\<rparr>] \<and>
     map dm_voxels (dense_models vf') = [[0, 0, 0, 9, 0, 0, 0, 0]] \<and>
     map sm_voxels (sparse_models vf') = [[\<lparr>vox_x = 3, vox_y = 0, vox_z = 0, vox_color = 9\<rparr>]]"
  by (simp add: run_defs replicate_unfold file_x3_def)

text \<open>
  C2 (amended): for every \<open>XYZI\<close> chunk, the decoding loop fails exactly when some
  record's flat offset \<open>x + y * size.x + z * size.x * size.y\<close> (in 32-bit arithmetic) is
  not below the number of cells \<open>size.x * size.y * size.z\<close> (in 32-bit arithmetic) of
  the pending \<open>Size\<close>; the chunk then fails with \<open>std::out_of_range\<close> and leaves the
  loader's state as it was, no model appended. A record whose coordinate is out of
  range but whose offset is inside the grid does not fail.
\<close>

theorem ReadXyziChunk_out_of_grid:
  assumes "le_u32read f = (n_voxels, f1)"
  shows "((\<exists>e. ReadXyziChunk_loop (unat n_voxels) f1 (VoxDenseModel_new (cur_size vf)) [] = Inl e) \<longleftrightarrow>
          (\<exists>v \<in> set (xyzi_records (unat n_voxels) f1).
             cell_count (cur_size vf) \<le> cell_of (cur_size vf) v)) \<and>
         ((\<exists>v \<in> set (xyzi_records (unat n_voxels) f1).
             cell_count (cur_size vf) \<le> cell_of (cur_size vf) v) \<longrightarrow>
          ReadXyziChunk f vf contents_size children_size = Inl out_of_range \<and>
          chunk_handler n (bytes_of ''XYZI'') f vf contents_size children_size =
            Some (Inl (out_of_range, vf)))"
proof -
  let ?recs = "xyzi_records (unat n_voxels) f1"
  let ?bad = "\<exists>v \<in> set ?recs. cell_count (cur_size vf) \<le> cell_of (cur_size vf) v"
  have loop: "(\<exists>e. ReadXyziChunk_loop (unat n_voxels) f1 (VoxDenseModel_new (cur_size vf)) [] = Inl e)
      \<longleftrightarrow> ?bad"
    by (auto simp: ReadXyziChunk_loop_eq VoxDenseModel_new_def cell_count_def not_less)
  have chunk: "ReadXyziChunk f vf contents_size children_size = Inl out_of_range" if ?bad
    using that by (auto simp: ReadXyziChunk_eq [OF assms] Let_def not_less)
  have tags: "bytes_of ''XYZI'' \<noteq> bytes_of ''MAIN''" "bytes_of ''XYZI'' \<noteq> bytes_of ''SIZE''"
    by (simp_all add: bytes_of_def)
  have "chunk_handler n (bytes_of ''XYZI'') f vf contents_size children_size =
      Some (Inl (out_of_range, vf))" if ?bad
    using chunk [OF that] tags by (simp add: chunk_handler_def)
  with loop chunk show ?thesis by blast
qed

theorem ReadXyziChunk_out_of_grid_witness:
  "le_u32read (stream_at file_z1 56) = (1, stream_at file_z1 60) \<and>
   \<lparr>vox_x = 0, vox_y = 0, vox_z = 1, vox_color = 5\<rparr> \<in> set (xyzi_records (unat (1 :: u32)) (stream_at file_z1 60)) \<and>
   cell_count (cur_size (at_xyzi False 1 1 1)) \<le>
     cell_of (cur_size (at_xyzi False 1 1 1)) \<lparr>vox_x = 0, vox_y = 0, vox_z = 1, vox_color = 5\<rparr> \<and>
   (\<exists>e. ReadXyziChunk_loop (unat (1 :: u32)) (stream_at file_z1 60)
          (VoxDenseModel_new (cur_size (at_xyzi False 1 1 1))) [] = Inl e) \<and>
   ReadXyziChunk (stream_at file_z1 56) (at_xyzi False 1 1 1) 8 0 = Inl out_of_range \<and>
   chunk_handler 0 (bytes_of ''XYZI'') (stream_at file_z1 56) (at_xyzi False 1 1 1) 8 0 =
     Some (Inl (out_of_range, at_xyzi False 1 1 1))"
proof -
  have header: "le_u32read (stream_at file_z1 56) = (1, stream_at file_z1 60)"
    by (simp add: run_defs file_z1_def)
  have rec: "\<lparr>vox_x = 0, vox_y = 0, vox_z = 1, vox_color = 5\<rparr> \<in>
      set (xyzi_records (unat (1 :: u32)) (stream_at file_z1 60))"
    by (simp add: run_defs xyzi_records_unfold file_z1_def)
  have out: "cell_count (cur_size (at_xyzi False 1 1 1)) \<le>
     cell_of (cur_size (at_xyzi False 1 1 1)) \<lparr>vox_x = 0, vox_y = 0, vox_z = 1, vox_color = 5\<rparr>"
    by (simp add: cell_count_def cell_of_def voxel_index_def at_xyzi_def)
  from ReadXyziChunk_out_of_grid [OF header, of "at_xyzi False 1 1 1" 8 0 0] header rec out
  show ?thesis by blast
qed

subsection \<open>C3: the cursor after a chunk\<close>

text \<open>
  C3, as stated, says that after any chunk the cursor is at
  \<open>contents_start + contents_size + children_size\<close>, however many bytes the handler
  consumed. That fails for a chunk whose handler reads past the end of the data: the
  stream is then in its fail state, \<open>seekg\<close> does nothing, and the cursor stays at the
  end of the data. \<open>truncated_size\<close> is such a chunk: its header ends at offset 12 and
  declares 12 bytes, the cursor ends at 16 and \<open>tellg\<close> reports \<open>-1\<close>, not 24.
\<close>

theorem ReadChunk_truncated_not_repositioned:
  "\<exists>f' vf' chunk_id contents_size children_size f3.
     ReadChunk 1 (stream_at truncated_size 0) (VoxFile_new True True True) = Some (Inr (f', vf')) \<and>
     read_chunk_header (stream_at truncated_size 0) = (chunk_id, contents_size, children_size, f3) \<and>
     gpos f3 + unat contents_size + unat children_size = 24 \<and>
     gpos f' = 16 \<and> tellg f' = - 1"
  by (simp add: run_defs truncated_size_def)

text \<open>
  C3 (amended): for every chunk that \<open>ReadChunk\<close> processes and returns from with the
  stream still good (no read ran past the end of the data), whatever its tag and
  however many bytes its handler consumed, the header took 12 bytes and the cursor is
  at \<open>contents_start + contents_size + children_size\<close> taken modulo \<open>2^32\<close>, which
  is the plain sum whenever that is below \<open>2^32\<close>; \<open>contents_start\<close> is the offset
  \<open>gpos f3\<close> just after the header.
\<close>

theorem ReadChunk_repositions:
  assumes "ReadChunk fuel f vf = Some (Inr (f', vf'))"
    and "\<not> failbit f'"
    and "read_chunk_header f = (chunk_id, contents_size, children_size, f3)"
  shows "gpos f3 = gpos f + 12 \<and>
         gpos f' = unat (word_of_nat (gpos f3) + contents_size + children_size :: u32) \<and>
         (gpos f3 + unat contents_size + unat children_size < 2 ^ 32 \<longrightarrow>
            gpos f' = gpos f3 + unat contents_size + unat children_size)"
proof -
  from assms(1,3) obtain n f4 where
    r: "chunk_handler n chunk_id f3 vf contents_size children_size = Some (Inr (f4, vf'))"
    and f': "f' = seekg f4 (word_of_int (tellg f3) + contents_size + children_size)"
    by (rule ReadChunk_Inr)
  from f' assms(2) have f4: "\<not> failbit f4" by simp
  have f3: "\<not> failbit f3"
  proof
    assume bad: "failbit f3"
    have "failbit f4"
    proof (rule chunk_handler_failbit [OF r bad])
      fix g vg
      assume "ReadMainChunk n f3 vf contents_size children_size = Some (Inr (g, vg))"
      with bad show "failbit g" by (rule ReadMainChunk_failbit)
    qed
    with f4 show False ..
  qed
  with read_chunk_header_good [OF assms(3)] have pos: "gpos f3 = gpos f + 12" by simp
  from f3 have "tellg f3 = int (gpos f3)" by (simp add: tellg_def)
  then have start: "(word_of_int (tellg f3) :: u32) = word_of_nat (gpos f3)" by simp
  from f' f4 have g: "gpos f' = unat (word_of_nat (gpos f3) + contents_size + children_size :: u32)"
    by (simp add: seekg_def start)
  have "gpos f' = gpos f3 + unat contents_size + unat children_size"
    if "gpos f3 + unat contents_size + unat children_size < 2 ^ 32"
  proof -
    have "unat (word_of_nat (gpos f3) + contents_size + children_size :: u32) =
          (gpos f3 + unat contents_size + unat children_size) mod 2 ^ 32"
      by (simp add: unat_word_ariths unat_of_nat mod_simps)
    with that g show ?thesis by simp
  qed
  with pos g show ?thesis by blast
qed

theorem ReadChunk_repositions_witness:
  "ReadChunk 1 (stream_at file_a 20) (VoxFile_new True True False) =
     Some (Inr (stream_at file_a 44,
                (VoxFile_new True True False)\<lparr>cur_size := \<lparr>vec_x = 1, vec_y = 1, vec_z = 1\<rparr>\<rparr>)) \<and>
   \<not> failbit (stream_at file_a 44) \<and>
   read_chunk_header (stream_at file_a 20) = (bytes_of ''SIZE'', 12, 0, stream_at file_a 32) \<and>
   gpos (stream_at file_a 32) = gpos (stream_at file_a 20) + 12 \<and>
   gpos (stream_at file_a 44) = 32 + 12 + 0"
proof -
  have run: "ReadChunk 1 (stream_at file_a 20) (VoxFile_new True True False) =
     Some (Inr (stream_at file_a 44,
                (VoxFile_new True True False)\<lparr>cur_size := \<lparr>vec_x = 1, vec_y = 1, vec_z = 1\<rparr>\<rparr>))"
    by (simp add: run_defs file_a_def)
  have good: "\<not> failbit (stream_at file_a 44)"
    by (simp add: stream_at_def)
  have header: "read_chunk_header (stream_at file_a 20) =
      (bytes_of ''SIZE'', 12, 0, stream_at file_a 32)"
    by (simp add: run_defs file_a_def)
  from ReadChunk_repositions [OF run good header] run good header show ?thesis
    by (simp add: stream_at_def)
qed

subsection \<open>C4: the sparse list replays to the dense grid\<close>

text \<open>
  C4, as stated, replays the sparse list into an all-zero grid of the model's size and
  expects the dense model's grid. The loader counts the cells of a grid, and the
  offset of a voxel in it, in \<open>uint32_t\<close>. \<open>file_wide\<close> declares a
  65536 x 65536 x 1 model without voxels: it loads, the dense model's grid has no cell
  at all (the product wraps to 0), and the replay of the paired sparse model, a grid
  of the model's size, has \<open>2 ^ 32\<close> cells.
\<close>

theorem Load_wide_grid_not_replayed:
  "\<exists>vf'. Load 5 (env_of file_wide) ''model.vox'' (VoxFile_new True True False) = Some (Inr vf') \<and>
     length (dense_models vf') = 1 \<and> length (sparse_models vf') = 1 \<and>
     dm_voxels (dense_models vf' ! 0) = [] \<and>
     length (replayed_grid (sparse_models vf' ! 0)) = 4294967296 \<and>
     replayed_grid (sparse_models vf' ! 0) \<noteq> dm_voxels (dense_models vf' ! 0)"
proof -
  obtain vf' where run: "Load 5 (env_of file_wide) ''model.vox'' (VoxFile_new True True False) =
      Some (Inr vf')"
    and d: "map dm_voxels (dense_models vf') = [[]]"
    and s: "map sm_size (sparse_models vf') = [\<lparr>vec_x = 65536, vec_y = 65536, vec_z = 1\<rparr>]"
    by (simp add: run_defs file_wide_def)
  from d have ld: "length (dense_models vf') = 1" and d0: "dm_voxels (dense_models vf' ! 0) = []"
    by (auto simp: map_eq_Cons_conv)
  from s have ls: "length (sparse_models vf') = 1"
    and s0: "sm_size (sparse_models vf' ! 0) = \<lparr>vec_x = 65536, vec_y = 65536, vec_z = 1\<rparr>"
    by (auto simp: map_eq_Cons_conv)
  have len: "length (replayed_grid (sparse_models vf' ! 0)) = 4294967296"
    by (simp add: replayed_grid_def s0 plain_cells_def)
  with d0 have "replayed_grid (sparse_models vf' ! 0) \<noteq> dm_voxels (dense_models vf' ! 0)"
    by auto
  with run ld ls d0 len show ?thesis by blast
qed

text \<open>
  C4 (amended): for every successful load with \<open>cull_hidden = false\<close> and both
  outputs requested, by a loader that held no sparse model before, the two collections
  have the same length and, at every index, the sparse model has the size of the dense
  model and the replay of its voxel list, in order, with the cells of the grid and the
  offsets of the entries counted modulo \<open>2 ^ 32\<close>, is exactly the dense model's grid.
  Where the size has fewer than \<open>2 ^ 32\<close> cells and every entry's offset is below
  \<open>2 ^ 32\<close>, that is the replay as C4 states it.
\<close>

theorem roundtrip_without_culling:
  assumes "Load fuel e path vf = Some (Inr vf')"
    and "load_dense vf" and "load_sparse vf" and "\<not> remove_hidden_voxels vf"
    and "sparse_models vf = []"
  shows "length (sparse_models vf') = length (dense_models vf') \<and>
         (\<forall>i < length (dense_models vf').
            sm_size (sparse_models vf' ! i) = dm_size (dense_models vf' ! i) \<and>
            replayed_grid32 (sparse_models vf' ! i) = dm_voxels (dense_models vf' ! i) \<and>
            (fits32 (sparse_models vf' ! i) \<longrightarrow>
               replayed_grid (sparse_models vf' ! i) = dm_voxels (dense_models vf' ! i)))"
proof -
  let ?vf1 = "vf\<lparr>dense_models := []\<rparr>"
  from Load_outcome [OF assms(1)] obtain vf2 where g: "grows ?vf1 vf2"
    and vf': "vf' = vf2\<lparr>dense_models :=
        map (\<lambda>model. model\<lparr>dm_palette := Some (palette vf2)\<rparr>) (dense_models vf2)\<rparr>"
    by auto
  from g assms(2-5) obtain ms where ms: "list_all (paired False) ms"
    and d: "dense_models vf2 = map fst ms"
    and s: "sparse_models vf2 = map snd ms"
    unfolding grows_def by auto
  have len: "length (sparse_models vf') = length (dense_models vf')"
    by (simp add: vf' d s)
  have "sm_size (sparse_models vf' ! i) = dm_size (dense_models vf' ! i) \<and>
        replayed_grid32 (sparse_models vf' ! i) = dm_voxels (dense_models vf' ! i) \<and>
        (fits32 (sparse_models vf' ! i) \<longrightarrow>
           replayed_grid (sparse_models vf' ! i) = dm_voxels (dense_models vf' ! i))"
    if "i < length (dense_models vf')" for i
  proof -
    from that have i: "i < length ms" by (simp add: vf' d)
    with ms have "paired False (ms ! i)" by (simp add: list_all_length)
    then have p: "dm_size (fst (ms ! i)) = sm_size (snd (ms ! i))"
      "dm_voxels (fst (ms ! i)) = replayed_grid32 (snd (ms ! i))"
      by (simp_all add: paired_def split_beta)
    from i have sp: "sparse_models vf' ! i = snd (ms ! i)" by (simp add: vf' s)
    from i have de: "dm_size (dense_models vf' ! i) = dm_size (fst (ms ! i))"
      "dm_voxels (dense_models vf' ! i) = dm_voxels (fst (ms ! i))"
      by (simp_all add: vf' d)
    from p sp de replayed_grid_fits32 [of "snd (ms ! i)"] show ?thesis by simp
  qed
  with len show ?thesis by blast
qed

theorem roundtrip_without_culling_witness:
  "\<exists>vf'. Load 5 (env_of file_alias) ''model.vox'' (VoxFile_new True True False) = Some (Inr vf') \<and>
     load_dense (VoxFile_new True True False) \<and> load_sparse (VoxFile_new True True False) \<and>
     \<not> remove_hidden_voxels (VoxFile_new True True False) \<and>
     sparse_models (VoxFile_new True True False) = [] \<and>
     length (sparse_models vf') = 1 \<and> length (dense_models vf') = 1 \<and>
     dm_voxels (dense_models vf' ! 0) = [0, 0, 0, 9, 0, 0, 0, 0] \<and>
     replayed_grid32 (sparse_models vf' ! 0) = [0, 0, 0, 9, 0, 0, 0, 0] \<and>
     fits32 (sparse_models vf' ! 0) \<and>
     replayed_grid (sparse_models vf' ! 0) = [0, 0, 0, 9, 0, 0, 0, 0]"
proof -
  let ?v = "VoxFile_new True True False"
  obtain vf' where run: "Load 5 (env_of file_alias) ''model.vox'' ?v = Some (Inr vf')"
    and grid: "map dm_voxels (dense_models vf') = [[0, 0, 0, 9, 0, 0, 0, 0]]"
    and size: "map sm_size (sparse_models vf') = [\<lparr>vec_x = 2, vec_y = 2, vec_z = 2\<rparr>]"
    and list: "map sm_voxels (sparse_models vf') =
       [[\<lparr>vox_x = 1, vox_y = 1, vox_z = 0, vox_color = 5\<rparr>,
         \<lparr>vox_x = 1, vox_y = 1, vox_z = 0, vox_color = 6\<rparr>,
         \<lparr>vox_x = 3, vox_y = 0, vox_z = 0, vox_color = 9\<rparr>]]"
    by (simp add: run_defs replicate_unfold file_alias_def)
  have flags: "load_dense ?v" "load_sparse ?v" "\<not> remove_hidden_voxels ?v"
    and old: "sparse_models ?v = []"
    by (simp_all add: VoxFile_new_def)
  from grid have one: "length (dense_models vf') = 1"
    and cells: "dm_voxels (dense_models vf' ! 0) = [0, 0, 0, 9, 0, 0, 0, 0]"
    by (auto simp: map_eq_Cons_conv)
  from size list have s0: "sm_size (sparse_models vf' ! 0) = \<lparr>vec_x = 2, vec_y = 2, vec_z = 2\<rparr>"
    "sm_voxels (sparse_models vf' ! 0) =
       [\<lparr>vox_x = 1, vox_y = 1, vox_z = 0, vox_color = 5\<rparr>,
        \<lparr>vox_x = 1, vox_y = 1, vox_z = 0, vox_color = 6\<rparr>,
        \<lparr>vox_x = 3, vox_y = 0, vox_z = 0, vox_color = 9\<rparr>]"
    by (auto simp: map_eq_Cons_conv)
  have fit: "fits32 (sparse_models vf' ! 0)"
    by (simp add: fits32_def s0 plain_cells_def plain_offset_def)
  from roundtrip_without_culling [OF run flags old] one
  have len: "length (sparse_models vf') = 1"
    and re: "replayed_grid32 (sparse_models vf' ! 0) = dm_voxels (dense_models vf' ! 0)"
      "fits32 (sparse_models vf' ! 0) \<longrightarrow>
         replayed_grid (sparse_models vf' ! 0) = dm_voxels (dense_models vf' ! 0)"
    by simp_all
  with run flags old one cells fit show ?thesis by simp
qed
subsection \<open>C5: the palette of the produced models\<close>

text \<open>
  C5 says that after a successful load every dense model and every sparse model carries
  the final palette, the one of the \<open>RGBA\<close> chunk if the file has one. \<open>Load\<close>
  assigns \<open>palette_\<close> to the dense models only; a sparse model is constructed with
  the default palette and has no way to receive another. \<open>file_rgba\<close> holds one model
  and an \<open>RGBA\<close> chunk whose every byte is \<open>0x11\<close>: after the load, entry 1 of the
  loader's palette and of the dense model's palette is (0x11, 0x11, 0x11, 0x11), and
  the sparse model still has the default palette, whose entry 1 is
  (0xcc, 0xff, 0xff, 0xff).
\<close>

theorem sparse_model_keeps_default_palette:
  "\<exists>vf'. Load 6 (env_of file_rgba) ''model.vox'' (VoxFile_new True True False) = Some (Inr vf') \<and>
     palette vf' ! 1 = \<lparr>col_r = 0x11, col_g = 0x11, col_b = 0x11, col_a = 0x11\<rparr> \<and>
     map (\<lambda>dense. map_option (\<lambda>p. p ! 1) (dm_palette dense)) (dense_models vf') =
       [Some \<lparr>col_r = 0x11, col_g = 0x11, col_b = 0x11, col_a = 0x11\<rparr>] \<and>
     map (\<lambda>sparse. sm_palette sparse ! 1) (sparse_models vf') =
       [\<lparr>col_r = 0xcc, col_g = 0xff, col_b = 0xff, col_a = 0xff\<rparr>] \<and>
     map (\<lambda>sparse. sm_palette sparse = kDefaultPalette) (sparse_models vf') = [True]"
  by (simp add: run_defs ReadRgbaChunk_good rgba_palette_first length_kDefaultPalette
      kDefaultPalette_first color_at_def file_rgba_def)

subsection \<open>C6: loading again\<close>

text \<open>
  C6 says that a successful \<open>Load\<close> clears the models loaded before, so that both
  collections hold exactly the models of the new file. \<open>Load\<close> clears
  \<open>dense_models_\<close> only. Loading \<open>file_a\<close>, which holds one model, twice with the
  same loader leaves one dense model and two sparse models.
\<close>

theorem second_Load_keeps_sparse_models:
  "\<exists>vf1 vf2.
     Load 5 (env_of file_a) ''model.vox'' (VoxFile_new True True False) = Some (Inr vf1) \<and>
     length (dense_models vf1) = 1 \<and> length (sparse_models vf1) = 1 \<and>
     Load 5 (env_of file_a) ''model.vox'' vf1 = Some (Inr vf2) \<and>
     length (dense_models vf2) = 1 \<and> length (sparse_models vf2) = 2"
  by (simp add: run_defs file_a_def)

subsection \<open>C7: the collections after a failed load\<close>

text \<open>
  C7, as stated, says that a failed \<open>Load\<close> leaves no partially populated
  collections. The loader appends each model as soon as its chunk is decoded and has
  nothing that takes them back. In \<open>file_second_bad\<close> the second \<open>XYZI\<close> chunk
  raises \<open>std::out_of_range\<close>; after the failed load the model of the first chunk is
  in both collections.
\<close>

theorem failed_Load_keeps_earlier_models:
  "\<exists>vf'. Load 6 (env_of file_second_bad) ''model.vox'' (VoxFile_new True True False) =
            Some (Inl (out_of_range, vf')) \<and>
     map dm_voxels (dense_models vf') = [[5]] \<and>
     map sm_voxels (sparse_models vf') = [[\<lparr>vox_x = 0, vox_y = 0, vox_z = 0, vox_color = 5\<rparr>]]"
  by (simp add: run_defs file_second_bad_def)

text \<open>
  C7 (amended): a \<open>Load\<close> that fails is not rolled back. It fails with
  \<open>VoxException\<close> (the signature check) or \<open>std::out_of_range\<close> (an \<open>XYZI\<close>
  chunk). After a failed signature check the loader's state is the previous one with
  the dense collection cleared, the sparse collection as it was. On a well-formed file
  with the chunks \<open>cs\<close>, a load that fails has failed at an \<open>XYZI\<close> chunk, the
  \<open>k\<close>-th, whose records do not decode under the size pending there, and the state
  it leaves is exactly the state after the \<open>k\<close> chunks before it have been decoded,
  from the previous state with the dense collection cleared: the failing chunk has
  appended nothing, the dense collection holds one model for each \<open>XYZI\<close> chunk
  before it (if dense output is on) and the sparse collection its previous contents
  followed by one model for each (if sparse output is on).
\<close>

theorem failed_Load_state:
  assumes "Load fuel e path vf = Some (Inl (ex, vf'))"
  shows "(ex = VoxException \<or> ex = out_of_range) \<and>
         (ex = VoxException \<longrightarrow> vf' = vf\<lparr>dense_models := []\<rparr>) \<and>
         (\<forall>cs. files e path = Some (vox_bytes cs) \<and> well_formed cs \<longrightarrow>
            (\<exists>k recs. k < length cs \<and> cs ! k = Xyzi_chunk recs \<and>
               after_chunks (take k cs) (vf\<lparr>dense_models := []\<rparr>) = Inr vf' \<and>
               xyzi_models (remove_hidden_voxels vf) (cur_size vf') recs = Inl ex \<and>
               length (dense_models vf') =
                 (if load_dense vf then length (filter is_xyzi (take k cs)) else 0) \<and>
               (\<exists>new. sparse_models vf' = sparse_models vf @ new \<and>
                  length new = (if load_sparse vf then length (filter is_xyzi (take k cs)) else 0))))"
proof -
  let ?vf1 = "vf\<lparr>dense_models := []\<rparr>"
  from Load_outcome [OF assms] have ex: "ex = VoxException \<or> ex = out_of_range"
    and sig: "ex = VoxException \<longrightarrow> vf' = ?vf1"
    by simp_all
  have "\<exists>k recs. k < length cs \<and> cs ! k = Xyzi_chunk recs \<and>
          after_chunks (take k cs) ?vf1 = Inr vf' \<and>
          xyzi_models (remove_hidden_voxels vf) (cur_size vf') recs = Inl ex \<and>
          length (dense_models vf') =
            (if load_dense vf then length (filter is_xyzi (take k cs)) else 0) \<and>
          (\<exists>new. sparse_models vf' = sparse_models vf @ new \<and>
             length new = (if load_sparse vf then length (filter is_xyzi (take k cs)) else 0))"
    if fl: "files e path = Some (vox_bytes cs)" and wf: "well_formed cs" for cs
  proof -
    let ?fuel = "max fuel (length cs + 2)"
    have "Load ?fuel e path vf = Some (Inl (ex, vf'))"
      using assms by (rule Load_fuel_mono) simp
    with Load_vox_bytes [OF fl wf, of ?fuel vf]
    have "after_chunks cs ?vf1 = Inl (ex, vf')"
      by (simp split: sum.splits)
    from after_chunks_Inl [OF this] obtain k recs where
      k: "k < length cs" "cs ! k = Xyzi_chunk recs" "after_chunks (take k cs) ?vf1 = Inr vf'"
        "xyzi_models (remove_hidden_voxels vf') (cur_size vf') recs = Inl ex"
      by blast
    from after_chunks_frame [OF k(3)] k show ?thesis by auto
  qed
  with ex sig show ?thesis by blast
qed

theorem failed_Load_state_witness:
  "\<exists>vf'. Load 6 (env_of file_second_bad) ''model.vox'' (VoxFile_new True True False) =
            Some (Inl (out_of_range, vf')) \<and>
     files (env_of file_second_bad) ''model.vox'' = Some (vox_bytes second_bad_chunks) \<and>
     well_formed second_bad_chunks \<and>
     (\<exists>k recs. k < length second_bad_chunks \<and> second_bad_chunks ! k = Xyzi_chunk recs \<and>
        after_chunks (take k second_bad_chunks) ((VoxFile_new True True False)\<lparr>dense_models := []\<rparr>) =
          Inr vf') \<and>
     length (dense_models vf') = 1 \<and> length (sparse_models vf') = 1"
proof -
  let ?v = "VoxFile_new True True False"
  obtain vf' where run: "Load 6 (env_of file_second_bad) ''model.vox'' ?v =
      Some (Inl (out_of_range, vf'))"
    and len: "length (dense_models vf') = 1" "length (sparse_models vf') = 1"
    by (simp add: run_defs file_second_bad_def)
  have fl: "files (env_of file_second_bad) ''model.vox'' = Some (vox_bytes second_bad_chunks)"
    by (simp add: env_of_def vox_bytes_second_bad)
  have wf: "well_formed second_bad_chunks"
    unfolding well_formed_def vox_bytes_second_bad
    by (simp add: second_bad_chunks_def file_second_bad_def bytes_of_def)
  from failed_Load_state [OF run] fl wf
  have "\<exists>k recs. k < length second_bad_chunks \<and> second_bad_chunks ! k = Xyzi_chunk recs \<and>
        after_chunks (take k second_bad_chunks) (?v\<lparr>dense_models := []\<rparr>) = Inr vf'"
    by blast
  with run fl wf len show ?thesis by blast
qed
subsection \<open>C8: colour index 0 in sparse models\<close>

text \<open>
  C8, as stated, says that no entry of a produced sparse model has colour index 0. The
  loader never looks at a record's colour: \<open>file_colour0\<close> holds one record of colour
  0, and it is the one entry of the sparse model, with culling enabled as well.
\<close>

theorem Load_keeps_colour_zero_record:
  "\<exists>vf'. Load 5 (env_of file_colour0) ''model.vox'' (VoxFile_new True True True) = Some (Inr vf') \<and>
     map sm_voxels (sparse_models vf') = [[\<lparr>vox_x = 0, vox_y = 0, vox_z = 0, vox_color = 0\<rparr>]]"
  by (simp add: run_defs file_colour0_def)

text \<open>
  C8 (amended): every entry of the sparse model that an \<open>XYZI\<close> chunk produces (with
  culling enabled or disabled) is one of the records of that chunk, unchanged, and with
  culling disabled the entries are exactly the records; so a produced sparse model has
  no entry with colour index 0 provided no record of its chunk has colour index 0.
\<close>

theorem sparse_entries_are_records:
  assumes "ReadXyziChunk f vf contents_size children_size = Inr (f', vf')"
    and "load_sparse vf"
    and "le_u32read f = (n_voxels, f1)"
  shows "\<exists>sparse. sparse_models vf' = sparse_models vf @ [sparse] \<and>
           set (sm_voxels sparse) \<subseteq> set (xyzi_records (unat n_voxels) f1) \<and>
           (\<not> remove_hidden_voxels vf \<longrightarrow> sm_voxels sparse = xyzi_records (unat n_voxels) f1) \<and>
           ((\<forall>v \<in> set (xyzi_records (unat n_voxels) f1). vox_color v \<noteq> 0) \<longrightarrow>
            (\<forall>v \<in> set (sm_voxels sparse). vox_color v \<noteq> 0))"
proof -
  let ?sz = "cur_size vf"
  let ?recs = "xyzi_records (unat n_voxels) f1"
  from assms(1) obtain dense2 sparse2 where
    models: "(if remove_hidden_voxels vf
       then RemoveHiddenVoxels (decoded_grid ?sz ?recs) (VoxSparseModel_new ?sz) ?recs
       else Inr (decoded_grid ?sz ?recs, (VoxSparseModel_new ?sz)\<lparr>sm_voxels := ?recs\<rparr>)) =
      Inr (dense2, sparse2)"
    and vf': "vf' = vf\<lparr>dense_models :=
                       (if load_dense vf then dense_models vf @ [dense2] else dense_models vf),
                     sparse_models :=
                       (if load_sparse vf then sparse_models vf @ [sparse2]
                        else sparse_models vf)\<rparr>"
    unfolding ReadXyziChunk_eq [OF assms(3)] Let_def
    by (auto split: if_splits sum.splits)
  have sub: "set (sm_voxels sparse2) \<subseteq> set ?recs"
  proof (cases "remove_hidden_voxels vf")
    case True
    with models RemoveHiddenVoxels_result
      [of "decoded_grid ?sz ?recs" "VoxSparseModel_new ?sz" ?recs dense2 sparse2]
    show ?thesis by (simp add: VoxSparseModel_new_def)
  next
    case False
    with models show ?thesis by auto
  qed
  have all: "sm_voxels sparse2 = ?recs" if "\<not> remove_hidden_voxels vf"
    using that models by auto
  from vf' assms(2) have "sparse_models vf' = sparse_models vf @ [sparse2]" by simp
  with sub all show ?thesis by blast
qed

theorem sparse_entries_are_records_witness:
  "ReadXyziChunk (stream_at file_a 56) (at_xyzi True 1 1 1) 8 0 =
     Inr (stream_at file_a 64,
          (at_xyzi True 1 1 1)
            \<lparr>dense_models := [\<lparr>dm_size = \<lparr>vec_x = 1, vec_y = 1, vec_z = 1\<rparr>, dm_voxels = [5],
                                dm_palette = None\<rparr>],
             sparse_models := [\<lparr>sm_size = \<lparr>vec_x = 1, vec_y = 1, vec_z = 1\<rparr>,
                                 sm_voxels = [\<lparr>vox_x = 0, vox_y = 0, vox_z = 0, vox_color = 5\<rparr>],
                                 sm_palette = kDefaultPalette\<rparr>]\<rparr>) \<and>
   load_sparse (at_xyzi True 1 1 1) \<and>
   le_u32read (stream_at file_a 56) = (1, stream_at file_a 60) \<and>
   xyzi_records (unat (1 :: u32)) (stream_at file_a 60) =
     [\<lparr>vox_x = 0, vox_y = 0, vox_z = 0, vox_color = 5\<rparr>] \<and>
   (\<exists>sparse. [\<lparr>sm_size = \<lparr>vec_x = 1, vec_y = 1, vec_z = 1\<rparr>,
                 sm_voxels = [\<lparr>vox_x = 0, vox_y = 0, vox_z = 0, vox_color = 5\<rparr>],
                 sm_palette = kDefaultPalette\<rparr>] = [sparse] \<and>
      list_all (\<lambda>v. vox_color v \<noteq> 0) (sm_voxels sparse))"
proof -
  have run: "ReadXyziChunk (stream_at file_a 56) (at_xyzi True 1 1 1) 8 0 =
     Inr (stream_at file_a 64,
          (at_xyzi True 1 1 1)
            \<lparr>dense_models := [\<lparr>dm_size = \<lparr>vec_x = 1, vec_y = 1, vec_z = 1\<rparr>, dm_voxels = [5],
                                dm_palette = None\<rparr>],
             sparse_models := [\<lparr>sm_size = \<lparr>vec_x = 1, vec_y = 1, vec_z = 1\<rparr>,
                                 sm_voxels = [\<lparr>vox_x = 0, vox_y = 0, vox_z = 0, vox_color = 5\<rparr>],
                                 sm_palette = kDefaultPalette\<rparr>]\<rparr>)"
    by (simp add: run_defs at_xyzi_def file_a_def)
  have sparse: "load_sparse (at_xyzi True 1 1 1)"
    by (simp add: at_xyzi_def VoxFile_new_def)
  have header: "le_u32read (stream_at file_a 56) = (1, stream_at file_a 60)"
    by (simp add: run_defs file_a_def)
  have recs: "xyzi_records (unat (1 :: u32)) (stream_at file_a 60) =
     [\<lparr>vox_x = 0, vox_y = 0, vox_z = 0, vox_color = 5\<rparr>]"
    by (simp add: run_defs xyzi_records_unfold file_a_def)
  from sparse_entries_are_records [OF run sparse header] run sparse header recs
  show ?thesis
    by (simp add: at_xyzi_def VoxFile_new_def)
qed

subsection \<open>C9: reading past the end of the data\<close>

text \<open>
  C9, as stated, says that a read past the end of the data, or a file that cannot be
  opened, makes \<open>Load\<close> fail with an I/O error. The stream raises nothing and the
  loader never asks it for its state. \<open>file_truncated\<close> ends in the middle of a chunk
  header; \<open>Load\<close> returns normally with no model, whatever the uninitialised bytes
  \<open>u\<close> are.
\<close>

theorem truncated_file_loads:
  "\<forall>u. \<exists>vf'. Load 5 \<lparr>files = (\<lambda>p. if p = ''model.vox'' then Some file_truncated else None),
                        uninit = u\<rparr> ''model.vox'' (VoxFile_new True True True) = Some (Inr vf') \<and>
      dense_models vf' = [] \<and> sparse_models vf' = []"
  by (simp add: run_defs file_truncated_def)

text \<open>
  C9 (amended): the loader has no I/O error. A primitive read that needs bytes beyond
  the end of the data raises nothing: it returns with the stream in its fail state, in
  which every further read fails too, \<open>seekg\<close> is ignored and \<open>tellg\<close> is \<open>-1\<close>.
  The only errors \<open>Load\<close> raises are \<open>VoxException\<close> (signature mismatch) and
  \<open>std::out_of_range\<close>. For a path that names no file that can be opened, \<open>Load\<close>
  fails synchronously with \<open>VoxException\<close>, provided the four uninitialised bytes
  of the signature buffer do not happen to be \<open>VOX \<close>.
\<close>

theorem Load_has_no_io_error:
  "(files e path = None \<and> map (uninit e) [0..<4] \<noteq> bytes_of ''VOX '' \<longrightarrow>
      Load fuel e path vf = Some (Inl (VoxException, vf\<lparr>dense_models := []\<rparr>))) \<and>
   (\<forall>ex vf'. Load fuel e path vf = Some (Inl (ex, vf')) \<longrightarrow>
      ex = VoxException \<or> ex = out_of_range) \<and>
   (length (content f) < gpos f + 4 \<longrightarrow> failbit (snd (le_u32read f))) \<and>
   (length (content f) < gpos f + 1 \<longrightarrow> failbit (snd (read_byte f))) \<and>
   (failbit f \<longrightarrow> failbit (snd (le_u32read f)) \<and> failbit (snd (read_byte f)) \<and>
      seekg f pos = f \<and> tellg f = - 1)"
proof -
  have a: "Load fuel e path vf = Some (Inl (VoxException, vf\<lparr>dense_models := []\<rparr>))"
    if "files e path = None" and "map (uninit e) [0..<4] \<noteq> bytes_of ''VOX ''"
  proof -
    from that(1) have "fst (ifstream_read (ifstream_open e path) 4) = map (uninit e) [0..<4]"
      by (simp add: ifstream_open_def ifstream_read_def garbage_def)
    with that(2) have "ReadId (ifstream_open e path) ''VOX '' = Inl VoxException"
      by (simp add: ReadId_VOX)
    then show ?thesis by (simp add: Load_def)
  qed
  have b: "ex = VoxException \<or> ex = out_of_range"
    if "Load fuel e path vf = Some (Inl (ex, vf'))" for ex vf'
    using Load_outcome [OF that] by simp
  have c: "failbit (snd (ifstream_read f n))" if "length (content f) < gpos f + n" and "0 < n" for n
  proof (cases "failbit f")
    case True
    then show ?thesis by (rule ifstream_read_failbit)
  next
    case False
    from that have "\<not> n \<le> length (content f) - gpos f" by arith
    with False show ?thesis by (simp add: ifstream_read_def Let_def)
  qed
  have d: "failbit (snd (le_u32read f))" if "length (content f) < gpos f + 4"
    using c [OF that, simplified] by (simp add: le_u32read_def split_beta)
  have e: "failbit (snd (read_byte f))" if "length (content f) < gpos f + 1"
    using c [OF that, simplified] by (simp add: read_byte_def split_beta)
  have g: "failbit (snd (le_u32read f)) \<and> failbit (snd (read_byte f)) \<and>
      seekg f pos = f \<and> tellg f = - 1" if "failbit f"
    using that by (simp add: le_u32read_failbit read_byte_failbit seekg_def tellg_def)
  from a b d e g show ?thesis by blast
qed

theorem Load_has_no_io_error_witness:
  "files (env_of file_a) ''missing.vox'' = None \<and>
   map (uninit (env_of file_a)) [0..<4] \<noteq> bytes_of ''VOX '' \<and>
   Load 5 (env_of file_a) ''missing.vox'' (VoxFile_new True True True) =
     Some (Inl (VoxException, (VoxFile_new True True True)\<lparr>dense_models := []\<rparr>)) \<and>
   length (content (stream_at file_truncated 12)) < gpos (stream_at file_truncated 12) + 4 \<and>
   failbit (snd (le_u32read (stream_at file_truncated 12)))"
proof -
  have none: "files (env_of file_a) ''missing.vox'' = None"
    by (simp add: env_of_def)
  have junk: "map (uninit (env_of file_a)) [0..<4] \<noteq> bytes_of ''VOX ''"
    by (simp add: env_of_def bytes_of_def upt_rec)
  have short: "length (content (stream_at file_truncated 12)) < gpos (stream_at file_truncated 12) + 4"
    by (simp add: stream_at_def file_truncated_def bytes_of_def)
  from Load_has_no_io_error
    [of "env_of file_a" "''missing.vox''" 5 "VoxFile_new True True True"
        "stream_at file_truncated 12" 0]
    none junk short
  show ?thesis by blast
qed

subsection \<open>C10: records with the same coordinate\<close>




end
